theory Spec2Isabelle
  imports Main
begin

text \<open>
  The repository holds two data factories for RDF terms that return one instance per
  value: the hashing factory (package memoized-hash-factory, and an older copy of it),
  which takes the identity of a term from a hash of its content, and the counting factory
  (package memoized-factory), which numbers the terms and finds them again in lookup
  tables. Both are embedded here method by method, with the store passed in and returned,
  and every \<^verbatim>\<open>throw\<close> a value.
\<close>

section \<open>JavaScript values\<close>

text \<open>
  The factories are TypeScript classes. Their arguments are typed, but two checks of the
  source (\<^verbatim>\<open>typeof value !== "string"\<close>, \<^verbatim>\<open>value && ...\<close>) look at values the types
  exclude, so the \<^verbatim>\<open>value\<close> argument of \<^verbatim>\<open>blankNode\<close> and \<^verbatim>\<open>namedNode\<close> is an
  arbitrary JavaScript value. Numbers are the integral ones.
\<close>

datatype jsval = JUndefined | JNull | JBool bool | JNum int | JStr string | JObj

text \<open>JavaScript's truthiness: \<^verbatim>\<open>undefined\<close>, \<^verbatim>\<open>null\<close>, \<^verbatim>\<open>false\<close>, \<^verbatim>\<open>0\<close> and \<^verbatim>\<open>""\<close> are falsy.\<close>

fun truthy_js :: "jsval \<Rightarrow> bool" where
  "truthy_js JUndefined = False"
| "truthy_js JNull = False"
| "truthy_js (JBool b) = b"
| "truthy_js (JNum n) = (n \<noteq> 0)"
| "truthy_js (JStr s) = (s \<noteq> [])"
| "truthy_js JObj = True"

text \<open>\<^verbatim>\<open>typeof v === "string"\<close>.\<close>

fun is_string :: "jsval \<Rightarrow> bool" where
  "is_string (JStr s) = True"
| "is_string v = False"

text \<open>
  What a method throws: the \<^verbatim>\<open>TypeError\<close> of the guards and of a property read on
  \<^verbatim>\<open>undefined\<close> or \<^verbatim>\<open>null\<close>, and \<^verbatim>\<open>Error("datatype must be defined")\<close>. \<open>NonStringValue\<close> is
  nothing the source throws: it marks a run of the older copy that this model does not
  follow (see there).
\<close>

datatype exn = TypeError | DatatypeError | NonStringValue

section \<open>Decimal strings\<close>

text \<open>
  \<^verbatim>\<open>Number.prototype.toString\<close> and template strings print an integer in decimal, with a
  leading minus sign for a negative one. (Identities are hashes of 32 bits, sums of four
  of them, or a counter: far below the size at which JavaScript prints an exponent.)
\<close>

definition digit :: "nat \<Rightarrow> char" where
  "digit d = ''0123456789'' ! d"

fun digits :: "nat \<Rightarrow> string" where
  "digits n = (if n < 10 then [digit n] else digits (n div 10) @ [digit (n mod 10)])"

declare digits.simps [simp del]

definition toString :: "int \<Rightarrow> string" where
  "toString i = (if i < 0 then CHR ''-'' # digits (nat (- i)) else digits (nat i))"

section \<open>Terms and quads\<close>

text \<open>
  An object is an immutable tree here: the factories never change a term after they have
  built it. Every object carries
  \<^item> the address \<^verbatim>\<open>Object.create\<close> gave it (\<open>Some a\<close>), or \<open>None\<close> for a plain description
    written by a caller, whose identity plays no part;
  \<^item> its \<^verbatim>\<open>id\<close> field, \<open>None\<close> when the object has none.
  Two values are the same instance when they are equal with their addresses.
  \<open>Other\<close> is an object whose \<^verbatim>\<open>termType\<close> is none of the three term types and that is
  no quad; \<open>Builtin k\<close> is the property \<open>k\<close> of \<^verbatim>\<open>Object.prototype\<close>, which every lookup table
  written \<^verbatim>\<open>{}\<close> inherits. \<open>Undefined\<close> stands for an omitted argument and a missing entry,
  \<open>Null\<close> for \<^verbatim>\<open>null\<close>: the parameter types exclude it, but the compiled code checks no
  type, and reading a property of \<^verbatim>\<open>null\<close> throws a \<^verbatim>\<open>TypeError\<close>.
\<close>

type_synonym addr = nat

datatype rdfobj =
    Undefined
  | Null
  | Array "rdfobj list"
  | BlankNode "addr option" "int option" string
  | NamedNode "addr option" "int option" string
  | Literal "addr option" "int option" string string rdfobj
  | Quad "addr option" "int option" rdfobj rdfobj rdfobj rdfobj
  | Other "addr option" "int option" string
  | Builtin string

text \<open>Every object, array and function is truthy; \<^verbatim>\<open>undefined\<close> and \<^verbatim>\<open>null\<close> are not.\<close>

fun truthy :: "rdfobj \<Rightarrow> bool" where
  "truthy Undefined = False"
| "truthy Null = False"
| "truthy t = True"

text \<open>
  The \<^verbatim>\<open>id\<close> property of an object (\<open>None\<close> is \<^verbatim>\<open>undefined\<close>). The methods read it from
  truthy values only.
\<close>

fun prop_id :: "rdfobj \<Rightarrow> int option" where
  "prop_id (BlankNode a i v) = i"
| "prop_id (NamedNode a i v) = i"
| "prop_id (Literal a i v l d) = i"
| "prop_id (Quad a i s p ob g) = i"
| "prop_id (Other a i v) = i"
| "prop_id t = None"

text \<open>\<^verbatim>\<open>if ((term as any).id) return (term as any).id\<close>: an id field counts when it is truthy.\<close>

fun assigned :: "int option \<Rightarrow> int option" where
  "assigned None = None"
| "assigned (Some n) = (if n = 0 then None else Some n)"

text \<open>The address of an object.\<close>

fun address :: "rdfobj \<Rightarrow> addr option" where
  "address (BlankNode a i v) = a"
| "address (NamedNode a i v) = a"
| "address (Literal a i v l d) = a"
| "address (Quad a i s p ob g) = a"
| "address (Other a i v) = a"
| "address t = None"

text \<open>The second argument of \<^verbatim>\<open>literal\<close>: omitted, a language string, or a datatype node.\<close>

datatype langOrDt = Omitted | Language string | Datatype rdfobj

definition datatypes_langString :: string where
  "datatypes_langString = ''http://www.w3.org/1999/02/22-rdf-syntax-ns#langString''"

definition datatypes_string :: string where
  "datatypes_string = ''http://www.w3.org/2001/XMLSchema#string''"

section \<open>The state of a factory\<close>

text \<open>
  \<open>memoizationMap\<close> is indexed by identities; JavaScript turns the number into its decimal
  string, which names no property of \<^verbatim>\<open>Object.prototype\<close>. \<open>nextAddr\<close> is the address the
  next \<^verbatim>\<open>Object.create\<close> returns.
\<close>

record factory =
  bnIndex :: int
  memoizationMap :: "int \<Rightarrow> rdfobj option"
  nextAddr :: addr

record hash_factory = factory +
  seedBase :: int

definition memo_get :: "(int \<Rightarrow> rdfobj option) \<Rightarrow> int \<Rightarrow> rdfobj" where
  "memo_get m i = (case m i of Some t \<Rightarrow> t | None \<Rightarrow> Undefined)"

section \<open>The hashing factory\<close>

text \<open>
  \<^verbatim>\<open>murmur3\<close> comes from the package murmurhash-js, which is not part of the repository:
  it is a parameter of every operation of this factory.

  \<^verbatim>\<open>id\<close> reads \<^verbatim>\<open>term.id\<close> of everything that is neither an array nor \<^verbatim>\<open>undefined\<close>, so it
  throws on \<^verbatim>\<open>null\<close>, also when it meets \<^verbatim>\<open>null\<close> as a component of a quad or as the datatype
  of a literal without language.
\<close>

type_synonym hashfn = "string \<Rightarrow> int \<Rightarrow> int"

fun id_hash :: "hashfn \<Rightarrow> 'a hash_factory_scheme \<Rightarrow> rdfobj \<Rightarrow> exn + int" where
  "id_hash murmur3 f Undefined = Inr (- 1)"
| "id_hash murmur3 f (Array xs) = Inr (- 1)"
| "id_hash murmur3 f Null = Inl TypeError"
| "id_hash murmur3 f (Quad a i s p ob g) =
     (case assigned i of
        Some n \<Rightarrow> Inr n
      | None \<Rightarrow>
          (case id_hash murmur3 f s of
             Inl e \<Rightarrow> Inl e
           | Inr x1 \<Rightarrow>
               (case id_hash murmur3 f p of
                  Inl e \<Rightarrow> Inl e
                | Inr x2 \<Rightarrow>
                    (case id_hash murmur3 f ob of
                       Inl e \<Rightarrow> Inl e
                     | Inr x3 \<Rightarrow>
                         (case (if truthy g then id_hash murmur3 f g else Inr 0) of
                            Inl e \<Rightarrow> Inl e
                          | Inr x4 \<Rightarrow>
                              Inr (murmur3 (toString (x1 + x2 + x3 + x4)) (seedBase f + 3)))))))"
| "id_hash murmur3 f (BlankNode a i v) =
     (case assigned i of Some n \<Rightarrow> Inr n | None \<Rightarrow> Inr (murmur3 v (seedBase f + 1)))"
| "id_hash murmur3 f (NamedNode a i v) =
     (case assigned i of Some n \<Rightarrow> Inr n | None \<Rightarrow> Inr (murmur3 v (seedBase f + 2)))"
| "id_hash murmur3 f (Literal a i v l d) =
     (case assigned i of
        Some n \<Rightarrow> Inr n
      | None \<Rightarrow>
          (case (if l \<noteq> [] then Inr (murmur3 l (seedBase f)) else id_hash murmur3 f d) of
             Inl e \<Rightarrow> Inl e
           | Inr langOrDTId \<Rightarrow> Inr (murmur3 v (seedBase f + 4 + langOrDTId))))"
| "id_hash murmur3 f (Other a i v) = (case assigned i of Some n \<Rightarrow> Inr n | None \<Rightarrow> Inr (- 1))"
| "id_hash murmur3 f (Builtin k) = Inr (- 1)"

text \<open>
  \<^verbatim>\<open>namedNode\<close>. The description handed to \<^verbatim>\<open>id\<close> is a plain object without \<^verbatim>\<open>id\<close>;
  a hit returns the stored instance and leaves the factory as it is.
\<close>

definition namedNode_hash ::
  "hashfn \<Rightarrow> hash_factory \<Rightarrow> jsval \<Rightarrow> (exn + rdfobj) \<times> hash_factory" where
  "namedNode_hash murmur3 f v =
     (case v of
        JStr s \<Rightarrow>
          (case id_hash murmur3 f (NamedNode None None s) of
             Inl e \<Rightarrow> (Inl e, f)
           | Inr i \<Rightarrow>
               if truthy (memo_get (memoizationMap f) i)
               then (Inr (memo_get (memoizationMap f) i), f)
               else
                 (let t = NamedNode (Some (nextAddr f)) (Some i) s in
                  (Inr t, f\<lparr>memoizationMap := (memoizationMap f)(i \<mapsto> t),
                             nextAddr := Suc (nextAddr f)\<rparr>)))
      | _ \<Rightarrow> (Inl TypeError, f))"

text \<open>
  \<^verbatim>\<open>blankNode\<close>: a truthy value that is no string throws; a falsy one (omitted, or the empty
  string) is replaced by \<^verbatim>\<open>b\<close> and the incremented counter.
\<close>

definition blankNode_hash ::
  "hashfn \<Rightarrow> hash_factory \<Rightarrow> jsval \<Rightarrow> (exn + rdfobj) \<times> hash_factory" where
  "blankNode_hash murmur3 f v =
     (if truthy_js v \<and> \<not> is_string v then (Inl TypeError, f)
      else
        (let (usedValue, f1) =
               (case v of
                  JStr s \<Rightarrow>
                    if s \<noteq> [] then (s, f)
                    else (''b'' @ toString (bnIndex f + 1), f\<lparr>bnIndex := bnIndex f + 1\<rparr>)
                | _ \<Rightarrow> (''b'' @ toString (bnIndex f + 1), f\<lparr>bnIndex := bnIndex f + 1\<rparr>))
         in
           (case id_hash murmur3 f1 (BlankNode None None usedValue) of
              Inl e \<Rightarrow> (Inl e, f1)
            | Inr i \<Rightarrow>
                if truthy (memo_get (memoizationMap f1) i)
                then (Inr (memo_get (memoizationMap f1) i), f1)
                else
                  (let t = BlankNode (Some (nextAddr f1)) (Some i) usedValue in
                   (Inr t, f1\<lparr>memoizationMap := (memoizationMap f1)(i \<mapsto> t),
                               nextAddr := Suc (nextAddr f1)\<rparr>)))))"

definition defaultGraph_hash :: "hashfn \<Rightarrow> hash_factory \<Rightarrow> (exn + rdfobj) \<times> hash_factory" where
  "defaultGraph_hash murmur3 f = namedNode_hash murmur3 f (JStr ''rdf:defaultGraph'')"

text \<open>
  \<^verbatim>\<open>literal\<close> for a string value (any other value goes to \<^verbatim>\<open>parseLiteral\<close> of
  @ontologies/core, outside the repository). The datatype is \<^verbatim>\<open>rdf:langString\<close> whenever the
  second argument is a string, the given node when there is one, \<^verbatim>\<open>xsd:string\<close> otherwise.
\<close>

definition literal_hash ::
  "hashfn \<Rightarrow> hash_factory \<Rightarrow> string \<Rightarrow> langOrDt \<Rightarrow> (exn + rdfobj) \<times> hash_factory" where
  "literal_hash murmur3 f v languageOrDatatype =
     (case
        (case languageOrDatatype of
           Language l \<Rightarrow> namedNode_hash murmur3 f (JStr datatypes_langString)
         | Datatype d \<Rightarrow>
             if truthy d then (Inr d, f) else namedNode_hash murmur3 f (JStr datatypes_string)
         | Omitted \<Rightarrow> namedNode_hash murmur3 f (JStr datatypes_string))
      of
        (Inl e, f1) \<Rightarrow> (Inl e, f1)
      | (Inr datatype, f1) \<Rightarrow>
          if datatype = Undefined then (Inl DatatypeError, f1)
          else
            (let language = (case languageOrDatatype of Language l \<Rightarrow> l | _ \<Rightarrow> []) in
             (case id_hash murmur3 f1 (Literal None None v language datatype) of
                Inl e \<Rightarrow> (Inl e, f1)
              | Inr i \<Rightarrow>
                  if truthy (memo_get (memoizationMap f1) i)
                  then (Inr (memo_get (memoizationMap f1) i), f1)
                  else
                    (let t = Literal (Some (nextAddr f1)) (Some i) v language datatype in
                     (Inr t, f1\<lparr>memoizationMap := (memoizationMap f1)(i \<mapsto> t),
                                 nextAddr := Suc (nextAddr f1)\<rparr>)))))"

text \<open>
  \<^verbatim>\<open>quad\<close>. The four identities are added as numbers and the sum is printed:
  \<^verbatim>\<open>(this.id(subject) + this.id(predicate) + this.id(object) + this.id(usedGraph)).toString()\<close>.
\<close>

definition quad_hash ::
  "hashfn \<Rightarrow> hash_factory \<Rightarrow> rdfobj \<Rightarrow> rdfobj \<Rightarrow> rdfobj \<Rightarrow> rdfobj
     \<Rightarrow> (exn + rdfobj) \<times> hash_factory" where
  "quad_hash murmur3 f subject predicate object graph =
     (case (if truthy graph then (Inr graph, f) else defaultGraph_hash murmur3 f) of
        (Inl e, f1) \<Rightarrow> (Inl e, f1)
      | (Inr usedGraph, f1) \<Rightarrow>
          (case id_hash murmur3 f1 subject of
             Inl e \<Rightarrow> (Inl e, f1)
           | Inr x1 \<Rightarrow>
          (case id_hash murmur3 f1 predicate of
             Inl e \<Rightarrow> (Inl e, f1)
           | Inr x2 \<Rightarrow>
          (case id_hash murmur3 f1 object of
             Inl e \<Rightarrow> (Inl e, f1)
           | Inr x3 \<Rightarrow>
          (case id_hash murmur3 f1 usedGraph of
             Inl e \<Rightarrow> (Inl e, f1)
           | Inr x4 \<Rightarrow>
               (let i = murmur3 (toString (x1 + x2 + x3 + x4)) (seedBase f1 + 3) in
                if truthy (memo_get (memoizationMap f1) i)
                then (Inr (memo_get (memoizationMap f1) i), f1)
                else
                  (let q = Quad (Some (nextAddr f1)) (Some i) subject predicate object usedGraph
                   in (Inr q, f1\<lparr>memoizationMap := (memoizationMap f1)(i \<mapsto> q),
                                  nextAddr := Suc (nextAddr f1)\<rparr>))))))))"

text \<open>An array read past its end gives \<^verbatim>\<open>undefined\<close>.\<close>

definition at :: "rdfobj list \<Rightarrow> nat \<Rightarrow> rdfobj" where
  "at xs n = (if n < length xs then xs ! n else Undefined)"




definition fromId_hash :: "hash_factory \<Rightarrow> int \<Rightarrow> rdfobj" where
  "fromId_hash f i = memo_get (memoizationMap f) i"

text \<open>\<^verbatim>\<open>new MemoizedHashFactory(opts)\<close>; every option defaults to zero or the empty map.\<close>

definition new_hash :: "int \<Rightarrow> hash_factory" where
  "new_hash seed = \<lparr>bnIndex = 0, memoizationMap = Map.empty, nextAddr = 0, seedBase = seed\<rparr>"

text \<open>
  The older copy of this factory (the unnamed source file) differs in its two guards only:
  they run when \<^verbatim>\<open>process.env.NODE_ENV !== "development"\<close>. What follows the guards, and
  \<^verbatim>\<open>literal\<close>, \<^verbatim>\<open>quad\<close>, \<^verbatim>\<open>equals\<close>, \<^verbatim>\<open>fromId\<close> and \<^verbatim>\<open>id\<close>, are the same text in both copies.
  In development mode a value that is no string passes on to \<^verbatim>\<open>murmur3\<close> and into the term
  that the source builds and stores. Terms hold strings here and \<^verbatim>\<open>murmur3\<close> takes strings,
  so the model does not follow that run: it stops with the mark \<open>NonStringValue\<close> and the
  store as it was, and nothing is stated of these runs.
\<close>

definition namedNode_old ::
  "hashfn \<Rightarrow> string option \<Rightarrow> hash_factory \<Rightarrow> jsval \<Rightarrow> (exn + rdfobj) \<times> hash_factory" where
  "namedNode_old murmur3 node_env f v =
     (if node_env \<noteq> Some ''development'' \<and> \<not> is_string v then (Inl TypeError, f)
      else if is_string v then namedNode_hash murmur3 f v
      else (Inl NonStringValue, f))"

definition blankNode_old ::
  "hashfn \<Rightarrow> string option \<Rightarrow> hash_factory \<Rightarrow> jsval \<Rightarrow> (exn + rdfobj) \<times> hash_factory" where
  "blankNode_old murmur3 node_env f v =
     (if node_env \<noteq> Some ''development'' \<and> truthy_js v \<and> \<not> is_string v then (Inl TypeError, f)
      else if truthy_js v \<and> \<not> is_string v then (Inl NonStringValue, f)
      else blankNode_hash murmur3 f v)"

section \<open>The counting factory\<close>

text \<open>
  The four lookup tables are object literals \<^verbatim>\<open>{}\<close> indexed by strings, so a key that names a
  property of \<^verbatim>\<open>Object.prototype\<close> reads that property when the table has no entry of its own.
\<close>

record index_factory = factory +
  index :: int
  blankNodeMap :: "string \<Rightarrow> rdfobj option"
  namedNodeMap :: "string \<Rightarrow> rdfobj option"
  literalMap :: "string \<Rightarrow> rdfobj option"
  quadMap :: "string \<Rightarrow> rdfobj option"

definition Object_prototype :: "string list" where
  "Object_prototype =
     [''constructor'', ''hasOwnProperty'', ''isPrototypeOf'', ''propertyIsEnumerable'',
      ''toLocaleString'', ''toString'', ''valueOf'', ''__proto__'', ''__defineGetter__'',
      ''__defineSetter__'', ''__lookupGetter__'', ''__lookupSetter__'']"

definition obj_get :: "(string \<Rightarrow> rdfobj option) \<Rightarrow> string \<Rightarrow> rdfobj" where
  "obj_get m k =
     (case m k of
        Some t \<Rightarrow> t
      | None \<Rightarrow> if k \<in> set Object_prototype then Builtin k else Undefined)"

text \<open>A template string prints \<^verbatim>\<open>undefined\<close> by name; so does a property key.\<close>

fun show_id :: "int option \<Rightarrow> string" where
  "show_id None = ''undefined''"
| "show_id (Some n) = toString n"

fun show_str :: "string option \<Rightarrow> string" where
  "show_str None = ''undefined''"
| "show_str (Some s) = s"

text \<open>The \<^verbatim>\<open>value\<close> property of an object.\<close>

fun prop_value :: "rdfobj \<Rightarrow> string option" where
  "prop_value (BlankNode a i v) = Some v"
| "prop_value (NamedNode a i v) = Some v"
| "prop_value (Literal a i v l d) = Some v"
| "prop_value (Other a i v) = Some v"
| "prop_value t = None"

text \<open>\<^verbatim>\<open>mapValue ? mapValue.id as number : this.index++\<close>.\<close>

definition entry_id :: "index_factory \<Rightarrow> rdfobj \<Rightarrow> (exn + int option) \<times> index_factory" where
  "entry_id f mapValue =
     (if truthy mapValue then (Inr (prop_id mapValue), f)
      else (Inr (Some (index f)), f\<lparr>index := index f + 1\<rparr>))"

text \<open>
  \<^verbatim>\<open>id\<close> and the private \<^verbatim>\<open>mapId\<close> call each other. \<^verbatim>\<open>isQuad\<close> is inherited from
  \<^verbatim>\<open>PlainFactory\<close> of @ontologies/core; it holds of the objects with a subject, the \<open>Quad\<close>s
  here. Reading \<^verbatim>\<open>term.id\<close> throws when the term is \<^verbatim>\<open>null\<close>, and reading
  \<^verbatim>\<open>term.datatype.value\<close> throws when the datatype is \<^verbatim>\<open>undefined\<close> or \<^verbatim>\<open>null\<close>.
\<close>

fun id_index :: "index_factory \<Rightarrow> rdfobj \<Rightarrow> (exn + int option) \<times> index_factory"
and mapId :: "index_factory \<Rightarrow> rdfobj \<Rightarrow> (exn + string option) \<times> index_factory" where
  "id_index f Undefined = (Inr (Some (- 1)), f)"
| "id_index f (Array xs) = (Inr (Some (- 1)), f)"
| "id_index f Null = (Inl TypeError, f)"
| "id_index f (Quad a i s p ob g) =
     (case assigned i of
        Some n \<Rightarrow> (Inr (Some n), f)
      | None \<Rightarrow>
          (case mapId f (Quad a i s p ob g) of
             (Inl e, f1) \<Rightarrow> (Inl e, f1)
           | (Inr k, f1) \<Rightarrow> entry_id f1 (obj_get (quadMap f1) (show_str k))))"
| "id_index f (BlankNode a i v) =
     (case assigned i of
        Some n \<Rightarrow> (Inr (Some n), f)
      | None \<Rightarrow>
          (case mapId f (BlankNode a i v) of
             (Inl e, f1) \<Rightarrow> (Inl e, f1)
           | (Inr k, f1) \<Rightarrow> entry_id f1 (obj_get (blankNodeMap f1) (show_str k))))"
| "id_index f (NamedNode a i v) =
     (case assigned i of
        Some n \<Rightarrow> (Inr (Some n), f)
      | None \<Rightarrow>
          (case mapId f (NamedNode a i v) of
             (Inl e, f1) \<Rightarrow> (Inl e, f1)
           | (Inr k, f1) \<Rightarrow> entry_id f1 (obj_get (namedNodeMap f1) (show_str k))))"
| "id_index f (Literal a i v l d) =
     (case assigned i of
        Some n \<Rightarrow> (Inr (Some n), f)
      | None \<Rightarrow>
          (case mapId f (Literal a i v l d) of
             (Inl e, f1) \<Rightarrow> (Inl e, f1)
           | (Inr k, f1) \<Rightarrow> entry_id f1 (obj_get (literalMap f1) (show_str k))))"
| "id_index f (Other a i v) =
     (case assigned i of Some n \<Rightarrow> (Inr (Some n), f) | None \<Rightarrow> (Inr (Some (- 1)), f))"
| "id_index f (Builtin k) = (Inr (Some (- 1)), f)"
| "mapId f (Quad a i s p ob g) =
     (case id_index f s of
        (Inl e, f1) \<Rightarrow> (Inl e, f1)
      | (Inr x1, f1) \<Rightarrow>
          (case id_index f1 p of
             (Inl e, f2) \<Rightarrow> (Inl e, f2)
           | (Inr x2, f2) \<Rightarrow>
               (case id_index f2 ob of
                  (Inl e, f3) \<Rightarrow> (Inl e, f3)
                | (Inr x3, f3) \<Rightarrow>
                    (case (if truthy g then id_index f3 g else (Inr (Some 0), f3)) of
                       (Inl e, f4) \<Rightarrow> (Inl e, f4)
                     | (Inr x4, f4) \<Rightarrow>
                         (Inr (Some (show_id x1 @ '','' @ show_id x2 @ '','' @ show_id x3
                                     @ '','' @ show_id x4)), f4)))))"
| "mapId f (BlankNode a i v) = (Inr (Some v), f)"
| "mapId f (NamedNode a i v) = (Inr (Some v), f)"
| "mapId f (Literal a i v l d) =
     (if d = Undefined \<or> d = Null then (Inl TypeError, f)
      else (Inr (Some (v @ '','' @ l @ '','' @ show_str (prop_value d))), f))"
| "mapId f Undefined = (Inl TypeError, f)"
| "mapId f Null = (Inl TypeError, f)"
| "mapId f t = (Inr None, f)"

definition namedNode_index ::
  "index_factory \<Rightarrow> jsval \<Rightarrow> (exn + rdfobj) \<times> index_factory" where
  "namedNode_index f v =
     (case v of
        JStr s \<Rightarrow>
          (case mapId f (NamedNode None None s) of
             (Inl e, f1) \<Rightarrow> (Inl e, f1)
           | (Inr k, f1) \<Rightarrow>
               if truthy (obj_get (namedNodeMap f1) (show_str k))
               then (Inr (obj_get (namedNodeMap f1) (show_str k)), f1)
               else
                 (let t = NamedNode (Some (nextAddr f1)) (Some (index f1)) s in
                  (Inr t, f1\<lparr>index := index f1 + 1,
                              namedNodeMap := (namedNodeMap f1)(show_str k \<mapsto> t),
                              memoizationMap := (memoizationMap f1)(index f1 \<mapsto> t),
                              nextAddr := Suc (nextAddr f1)\<rparr>)))
      | _ \<Rightarrow> (Inl TypeError, f))"

text \<open>\<^verbatim>\<open>mapId && this.blankNodeMap[mapId]\<close>: the key itself has to be truthy.\<close>

definition blankNode_index ::
  "index_factory \<Rightarrow> jsval \<Rightarrow> (exn + rdfobj) \<times> index_factory" where
  "blankNode_index f v =
     (if truthy_js v \<and> \<not> is_string v then (Inl TypeError, f)
      else
        (let (usedValue, f0) =
               (case v of
                  JStr s \<Rightarrow>
                    if s \<noteq> [] then (s, f)
                    else (''_:b'' @ toString (bnIndex f + 1), f\<lparr>bnIndex := bnIndex f + 1\<rparr>)
                | _ \<Rightarrow> (''_:b'' @ toString (bnIndex f + 1), f\<lparr>bnIndex := bnIndex f + 1\<rparr>))
         in
           (case mapId f0 (BlankNode None None usedValue) of
              (Inl e, f1) \<Rightarrow> (Inl e, f1)
            | (Inr k, f1) \<Rightarrow>
                if k \<noteq> None \<and> k \<noteq> Some [] \<and> truthy (obj_get (blankNodeMap f1) (show_str k))
                then (Inr (obj_get (blankNodeMap f1) (show_str k)), f1)
                else
                  (let t = BlankNode (Some (nextAddr f1)) (Some (index f1)) usedValue in
                   (Inr t, f1\<lparr>index := index f1 + 1,
                               blankNodeMap := (blankNodeMap f1)(show_str k \<mapsto> t),
                               memoizationMap := (memoizationMap f1)(index f1 \<mapsto> t),
                               nextAddr := Suc (nextAddr f1)\<rparr>)))))"

definition defaultGraph_index :: "index_factory \<Rightarrow> (exn + rdfobj) \<times> index_factory" where
  "defaultGraph_index f = namedNode_index f (JStr ''rdf:defaultGraph'')"

definition literal_index ::
  "index_factory \<Rightarrow> string \<Rightarrow> langOrDt \<Rightarrow> (exn + rdfobj) \<times> index_factory" where
  "literal_index f v languageOrDatatype =
     (case
        (case languageOrDatatype of
           Language l \<Rightarrow> namedNode_index f (JStr datatypes_langString)
         | Datatype d \<Rightarrow>
             if truthy d then (Inr d, f) else namedNode_index f (JStr datatypes_string)
         | Omitted \<Rightarrow> namedNode_index f (JStr datatypes_string))
      of
        (Inl e, f0) \<Rightarrow> (Inl e, f0)
      | (Inr datatype, f0) \<Rightarrow>
          if datatype = Undefined then (Inl DatatypeError, f0)
          else
            (let language = (case languageOrDatatype of Language l \<Rightarrow> l | _ \<Rightarrow> []) in
             (case mapId f0 (Literal None None v language datatype) of
                (Inl e, f1) \<Rightarrow> (Inl e, f1)
              | (Inr k, f1) \<Rightarrow>
                  if truthy (obj_get (literalMap f1) (show_str k))
                  then (Inr (obj_get (literalMap f1) (show_str k)), f1)
                  else
                    (let t = Literal (Some (nextAddr f1)) (Some (index f1)) v language datatype in
                     (Inr t, f1\<lparr>index := index f1 + 1,
                                 literalMap := (literalMap f1)(show_str k \<mapsto> t),
                                 memoizationMap := (memoizationMap f1)(index f1 \<mapsto> t),
                                 nextAddr := Suc (nextAddr f1)\<rparr>)))))"

text \<open>
  The content key of \<^verbatim>\<open>quad\<close>:
  \<^verbatim>\<open>`${this.id(subject)},${this.id(predicate)},${this.id(object)},${(graph ? this.id(graph) : 0)}`\<close>,
  with the graph the caller gave, not the one the quad gets.
\<close>

definition quadMapId ::
  "index_factory \<Rightarrow> rdfobj \<Rightarrow> rdfobj \<Rightarrow> rdfobj \<Rightarrow> rdfobj \<Rightarrow> (exn + string) \<times> index_factory" where
  "quadMapId f subject predicate object graph =
     (case id_index f subject of
        (Inl e, f1) \<Rightarrow> (Inl e, f1)
      | (Inr x1, f1) \<Rightarrow>
          (case id_index f1 predicate of
             (Inl e, f2) \<Rightarrow> (Inl e, f2)
           | (Inr x2, f2) \<Rightarrow>
               (case id_index f2 object of
                  (Inl e, f3) \<Rightarrow> (Inl e, f3)
                | (Inr x3, f3) \<Rightarrow>
                    (case (if truthy graph then id_index f3 graph else (Inr (Some 0), f3)) of
                       (Inl e, f4) \<Rightarrow> (Inl e, f4)
                     | (Inr x4, f4) \<Rightarrow>
                         (Inr (show_id x1 @ '','' @ show_id x2 @ '','' @ show_id x3
                               @ '','' @ show_id x4), f4)))))"

definition quad_index ::
  "index_factory \<Rightarrow> rdfobj \<Rightarrow> rdfobj \<Rightarrow> rdfobj \<Rightarrow> rdfobj \<Rightarrow> (exn + rdfobj) \<times> index_factory" where
  "quad_index f subject predicate object graph =
     (case (if truthy graph then (Inr graph, f) else defaultGraph_index f) of
        (Inl e, f0) \<Rightarrow> (Inl e, f0)
      | (Inr usedGraph, f0) \<Rightarrow>
          (case quadMapId f0 subject predicate object graph of
             (Inl e, f1) \<Rightarrow> (Inl e, f1)
           | (Inr k, f1) \<Rightarrow>
               if truthy (obj_get (quadMap f1) k) then (Inr (obj_get (quadMap f1) k), f1)
               else
                 (let q = Quad (Some (nextAddr f1)) (Some (index f1)) subject predicate object
                            usedGraph in
                  (Inr q, f1\<lparr>index := index f1 + 1,
                              quadMap := (quadMap f1)(k \<mapsto> q),
                              memoizationMap := (memoizationMap f1)(index f1 \<mapsto> q),
                              nextAddr := Suc (nextAddr f1)\<rparr>))))"

text \<open>
  \<^verbatim>\<open>this.id(a) === this.id(b)\<close> calls \<^verbatim>\<open>id\<close> on the left argument first, and on the right
  argument with the store the first call left; \<^verbatim>\<open>&&\<close> stops at the first comparison that
  fails.
\<close>

definition same_id :: "index_factory \<Rightarrow> rdfobj \<Rightarrow> rdfobj \<Rightarrow> (exn + bool) \<times> index_factory" where
  "same_id f a b =
     (case id_index f a of
        (Inl e, f1) \<Rightarrow> (Inl e, f1)
      | (Inr x, f1) \<Rightarrow>
          (case id_index f1 b of
             (Inl e, f2) \<Rightarrow> (Inl e, f2)
           | (Inr y, f2) \<Rightarrow> (Inr (x = y), f2)))"

definition and_also ::
  "(exn + bool) \<times> index_factory \<Rightarrow> (index_factory \<Rightarrow> (exn + bool) \<times> index_factory)
     \<Rightarrow> (exn + bool) \<times> index_factory" where
  "and_also r k =
     (case r of
        (Inl e, f) \<Rightarrow> (Inl e, f)
      | (Inr b, f) \<Rightarrow> if b then k f else (Inr False, f))"

fun equals_index :: "index_factory \<Rightarrow> rdfobj \<Rightarrow> rdfobj \<Rightarrow> (exn + bool) \<times> index_factory" where
  "equals_index f (Array xs) (Array ys) =
     and_also (same_id f (at xs 0) (at ys 0)) (\<lambda>f1.
     and_also (same_id f1 (at xs 1) (at ys 1)) (\<lambda>f2.
     and_also (same_id f2 (at xs 2) (at ys 2)) (\<lambda>f3.
     same_id f3 (at xs 3) (at ys 3))))"
| "equals_index f a b =
     (if \<not> truthy a \<or> \<not> truthy b then (Inr (a = b), f)
      else same_id f a b)"

definition fromId_index :: "index_factory \<Rightarrow> int \<Rightarrow> rdfobj" where
  "fromId_index f i = memo_get (memoizationMap f) i"

text \<open>\<^verbatim>\<open>new MemoizedHashFactory()\<close> of this package: both counters start at one.\<close>

definition new_index :: index_factory where
  "new_index =
     \<lparr>bnIndex = 1, memoizationMap = Map.empty, nextAddr = 0, index = 1,
      blankNodeMap = Map.empty, namedNodeMap = Map.empty, literalMap = Map.empty,
      quadMap = Map.empty\<rparr>"

section \<open>Invariants and auxiliary definitions\<close>

text \<open>
  The four operations of a factory end alike: look the key up, return what is found, or
  build the object at the next address and store it.
\<close>

definition store_hash ::
  "hash_factory \<Rightarrow> int \<Rightarrow> (addr \<Rightarrow> rdfobj) \<Rightarrow> (exn + rdfobj) \<times> hash_factory" where
  "store_hash f i mk =
     (if truthy (memo_get (memoizationMap f) i) then (Inr (memo_get (memoizationMap f) i), f)
      else (Inr (mk (nextAddr f)),
            f\<lparr>memoizationMap := (memoizationMap f)(i \<mapsto> mk (nextAddr f)),
              nextAddr := Suc (nextAddr f)\<rparr>))"

text \<open>
  The same after the computation of the identity, which may have thrown: the methods
  throw before they touch the store.
\<close>

definition store_or ::
  "hash_factory \<Rightarrow> exn + int \<Rightarrow> (int \<Rightarrow> addr \<Rightarrow> rdfobj) \<Rightarrow> (exn + rdfobj) \<times> hash_factory" where
  "store_or f r mk = (case r of Inl e \<Rightarrow> (Inl e, f) | Inr i \<Rightarrow> store_hash f i (mk i))"

text \<open>No two entries of the table of identities share an address.\<close>

definition one_address :: "(int \<Rightarrow> rdfobj option) \<Rightarrow> bool" where
  "one_address mm \<longleftrightarrow>
     (\<forall>i j t u. mm i = Some t \<and> mm j = Some u \<and> address t = address u \<longrightarrow> i = j)"

text \<open>
  A well-formed store of the hashing factory: every entry is an object that carries the
  identity it is stored under, which is also what \<open>id\<close> computes for it, and that was
  allocated below \<open>nextAddr\<close>, at an address of its own.
\<close>

definition wf_hash :: "hashfn \<Rightarrow> hash_factory \<Rightarrow> bool" where
  "wf_hash m f \<longleftrightarrow>
     (\<forall>i t. memoizationMap f i = Some t \<longrightarrow>
        truthy t \<and> prop_id t = Some i \<and> id_hash m f t = Inr i
        \<and> (\<exists>a. address t = Some a \<and> a < nextAddr f))
     \<and> one_address (memoizationMap f)"

text \<open>The datatype IRI and the language that \<open>literal\<close> takes from its second argument.\<close>

definition datatype_of :: "langOrDt \<Rightarrow> string" where
  "datatype_of lod = (case lod of Language l \<Rightarrow> datatypes_langString | _ \<Rightarrow> datatypes_string)"

definition language_of :: "langOrDt \<Rightarrow> string" where
  "language_of lod = (case lod of Language l \<Rightarrow> l | _ \<Rightarrow> [])"

text \<open>The four lookup tables of the counting factory, by kind.\<close>

datatype kind = KBlank | KNamed | KLiteral | KQuad

fun table :: "kind \<Rightarrow> index_factory \<Rightarrow> string \<Rightarrow> rdfobj option" where
  "table KBlank f = blankNodeMap f"
| "table KNamed f = namedNodeMap f"
| "table KLiteral f = literalMap f"
| "table KQuad f = quadMap f"

fun put :: "kind \<Rightarrow> string \<Rightarrow> rdfobj \<Rightarrow> index_factory \<Rightarrow> index_factory" where
  "put KBlank k t f = f\<lparr>blankNodeMap := (blankNodeMap f)(k \<mapsto> t)\<rparr>"
| "put KNamed k t f = f\<lparr>namedNodeMap := (namedNodeMap f)(k \<mapsto> t)\<rparr>"
| "put KLiteral k t f = f\<lparr>literalMap := (literalMap f)(k \<mapsto> t)\<rparr>"
| "put KQuad k t f = f\<lparr>quadMap := (quadMap f)(k \<mapsto> t)\<rparr>"

definition store_index ::
  "kind \<Rightarrow> index_factory \<Rightarrow> string \<Rightarrow> (addr \<Rightarrow> int \<Rightarrow> rdfobj) \<Rightarrow> (exn + rdfobj) \<times> index_factory" where
  "store_index c f k mk =
     (if truthy (obj_get (table c f) k) then (Inr (obj_get (table c f) k), f)
      else (Inr (mk (nextAddr f) (index f)),
            (put c k (mk (nextAddr f) (index f)) f)
              \<lparr>index := index f + 1,
               memoizationMap := (memoizationMap f)(index f \<mapsto> mk (nextAddr f) (index f)),
               nextAddr := Suc (nextAddr f)\<rparr>))"

text \<open>\<open>bumps f f'\<close>: the two stores differ at most in the counter, which has not decreased.\<close>

definition bumps :: "index_factory \<Rightarrow> index_factory \<Rightarrow> bool" where
  "bumps f f' \<longleftrightarrow> f' = f\<lparr>index := index f'\<rparr> \<and> index f \<le> index f'"

text \<open>An object with a truthy \<open>id\<close> field.\<close>

definition identified :: "rdfobj \<Rightarrow> bool" where
  "identified t \<longleftrightarrow> assigned (prop_id t) \<noteq> None"

text \<open>
  What a lookup table holds under a key: a term of the kind of the table that the factory
  built, under the content key of that term.
\<close>

fun kind_ok :: "kind \<Rightarrow> string \<Rightarrow> rdfobj \<Rightarrow> bool" where
  "kind_ok KBlank k (BlankNode (Some a) (Some n) v) = (v = k)"
| "kind_ok KNamed k (NamedNode (Some a) (Some n) v) = (v = k)"
| "kind_ok KLiteral k (Literal (Some a) (Some n) v l d) =
     (truthy d \<and> k = v @ '','' @ l @ '','' @ show_str (prop_value d))"
| "kind_ok KQuad k (Quad (Some a) (Some n) s p ob g) = True"
| "kind_ok c k t = False"

text \<open>
  A well-formed store of the counting factory: the counter is positive and above every
  identity in use; every entry of the table of identities carries its key as \<open>id\<close> and has
  an address of its own below \<open>nextAddr\<close>; every entry of a lookup table is in the table of
  identities, is of the kind of the table, and is in no other place of the lookup tables.
\<close>

definition wf_index :: "index_factory \<Rightarrow> bool" where
  "wf_index f \<longleftrightarrow>
     1 \<le> index f
     \<and> one_address (memoizationMap f)
     \<and> (\<forall>n t. memoizationMap f n = Some t \<longrightarrow>
            1 \<le> n \<and> n < index f \<and> prop_id t = Some n \<and> truthy t
            \<and> (\<exists>a. address t = Some a \<and> a < nextAddr f))
     \<and> (\<forall>c k t. table c f k = Some t \<longrightarrow>
            (\<exists>n. prop_id t = Some n \<and> memoizationMap f n = Some t) \<and> kind_ok c k t)
     \<and> (\<forall>c k c' k' t. table c f k = Some t \<and> table c' f k' = Some t \<longrightarrow> c = c' \<and> k = k')"

text \<open>
  The objects on which \<open>id\<close> throws. The hashing \<open>id\<close> throws on \<^verbatim>\<open>null\<close>, and on a quad or
  literal without identity through which it reaches \<^verbatim>\<open>null\<close>: through subject, predicate,
  object or a truthy graph, or through the datatype of a literal without language. The
  counting \<open>id\<close> throws on \<^verbatim>\<open>null\<close>, on a literal without identity whose datatype is missing,
  and on a quad without identity through which it reaches one of these. (The interfaces
  of the terms allow none of these objects.)
\<close>

fun fails_hash :: "rdfobj \<Rightarrow> bool" where
  "fails_hash Null = True"
| "fails_hash (Quad a i s p ob g) =
     (assigned i = None
      \<and> (fails_hash s \<or> fails_hash p \<or> fails_hash ob \<or> (truthy g \<and> fails_hash g)))"
| "fails_hash (Literal a i v l d) = (assigned i = None \<and> l = [] \<and> fails_hash d)"
| "fails_hash t = False"

fun fails_index :: "rdfobj \<Rightarrow> bool" where
  "fails_index Null = True"
| "fails_index (Quad a i s p ob g) =
     (assigned i = None
      \<and> (fails_index s \<or> fails_index p \<or> fails_index ob \<or> (truthy g \<and> fails_index g)))"
| "fails_index (Literal a i v l d) = (assigned i = None \<and> (d = Undefined \<or> d = Null))"
| "fails_index t = False"


text \<open>
  \<open>known f t\<close>: the counting \<open>id\<close> returns for \<open>t\<close> on the store \<open>f\<close> without throwing and
  without taking a number from the counter. So it is when \<open>t\<close> carries an identity, when
  \<open>t\<close> describes an interned term, and when \<open>id\<close> has one answer for \<open>t\<close> on every store
  (\<open>-1\<close>, or \<^verbatim>\<open>undefined\<close> for a value that names a property of \<^verbatim>\<open>Object.prototype\<close>).
\<close>

definition known :: "index_factory \<Rightarrow> rdfobj \<Rightarrow> bool" where
  "known f t = (case id_index f t of (Inr x, f') \<Rightarrow> index f' = index f | (Inl e, f') \<Rightarrow> False)"

text \<open>
  \<open>grows f f'\<close>: every lookup that finds something on \<open>f\<close> finds the same on \<open>f'\<close>.
\<close>

definition grows :: "index_factory \<Rightarrow> index_factory \<Rightarrow> bool" where
  "grows f f' \<longleftrightarrow>
     (\<forall>c k. truthy (obj_get (table c f) k) \<longrightarrow> obj_get (table c f') k = obj_get (table c f) k)"

text \<open>
  A description of a blank or named node whose value names a property of
  \<^verbatim>\<open>Object.prototype\<close>.
\<close>

fun proto_named :: "rdfobj \<Rightarrow> bool" where
  "proto_named (BlankNode a i v) = (v \<in> set Object_prototype)"
| "proto_named (NamedNode a i v) = (v \<in> set Object_prototype)"
| "proto_named t = False"


fun ids_match_index ::
  "index_factory \<Rightarrow> (rdfobj \<times> rdfobj) list \<Rightarrow> (exn + bool) \<times> index_factory" where
  "ids_match_index f [] = (Inr True, f)"
| "ids_match_index f ((a, b) # ps) =
     (case id_index f a of
        (Inl e, f1) \<Rightarrow> (Inl e, f1)
      | (Inr x, f1) \<Rightarrow>
          (case id_index f1 b of
             (Inl e, f2) \<Rightarrow> (Inl e, f2)
           | (Inr y, f2) \<Rightarrow> if x = y then ids_match_index f2 ps else (Inr False, f2)))"



section \<open>Decimal strings: lemmas\<close>

lemma digits_nonempty: "digits n \<noteq> []"
  by (subst digits.simps) simp

lemma digit_eq_zero: "d < 10 \<Longrightarrow> digit d = CHR ''0'' \<longleftrightarrow> d = 0"
proof -
  assume "d < 10"
  then consider "d = 0" | "d = 1" | "d = 2" | "d = 3" | "d = 4" | "d = 5" | "d = 6" | "d = 7" | "d = 8" | "d = 9"
    by atomize_elim arith
  then show ?thesis by cases (simp_all add: digit_def)
qed

lemma digits_zero: "digits n = ''0'' \<longleftrightarrow> n = 0"
proof (cases "n < 10")
  case True
  then show ?thesis by (subst digits.simps) (simp add: digit_eq_zero)
next
  case False
  have "digits n = digits (n div 10) @ [digit (n mod 10)]"
    using False by (subst digits.simps) simp
  then have "length (digits n) \<ge> 2"
    using digits_nonempty [of "n div 10"] by (cases "digits (n div 10)") simp_all
  then show ?thesis using False by auto
qed

lemma toString_zero: "toString i = ''0'' \<longleftrightarrow> i = 0"
  by (auto simp: toString_def digits_zero digits_nonempty)

section \<open>The hashing factory: lemmas\<close>

lemma id_hash_seed: "seedBase f = seedBase f' \<Longrightarrow> id_hash m f t = id_hash m f' t"
  by (induction t) (simp_all split: option.splits sum.splits)

lemma id_hash_upd [simp]:
  "id_hash m (f\<lparr>memoizationMap := mm\<rparr>) t = id_hash m f t"
  "id_hash m (f\<lparr>nextAddr := na\<rparr>) t = id_hash m f t"
  "id_hash m (f\<lparr>bnIndex := b\<rparr>) t = id_hash m f t"
  by (rule id_hash_seed, simp)+

lemma id_hash_TypeError: "id_hash m f t = Inl e \<Longrightarrow> e = TypeError"
  by (induction t) (auto split: option.splits sum.splits if_splits)

lemma assigned_Some: "assigned i = Some n \<longleftrightarrow> i = Some n \<and> n \<noteq> 0"
  by (cases i) auto

lemma assigned_None: "assigned i = None \<longleftrightarrow> i = None \<or> i = Some 0"
  by (cases i) auto

text \<open>\<open>id\<close> throws exactly on the objects through which it reaches \<^verbatim>\<open>null\<close>.\<close>

lemma id_hash_fails: "isl (id_hash m f t) \<longleftrightarrow> fails_hash t"
proof (induction t)
  case (Quad a i s p ob g)
  show ?case
  proof (cases "assigned i")
    case (Some n)
    then show ?thesis by simp
  next
    case None
    show ?thesis
      using Quad.IH None
      by (cases "id_hash m f s"; cases "id_hash m f p"; cases "id_hash m f ob";
          cases "truthy g"; cases "id_hash m f g") simp_all
  qed
next
  case (Literal a i v l d)
  show ?case
    using Literal.IH
    by (cases "assigned i"; cases "l = []"; cases "id_hash m f d") simp_all
qed (simp_all split: option.splits)

lemma id_hash_throws: "fails_hash t \<Longrightarrow> id_hash m f t = Inl TypeError"
  using id_hash_fails [of m f t] id_hash_TypeError [of m f t]
  by (cases "id_hash m f t") auto

lemma id_hash_total: "\<not> fails_hash t \<Longrightarrow> \<exists>n. id_hash m f t = Inr n"
  using id_hash_fails [of m f t] by (cases "id_hash m f t") auto

text \<open>
  A term that carries the identity of its description has that identity, also when the
  identity is \<open>0\<close> and \<open>id\<close> computes it again.
\<close>

lemma id_hash_stamped:
  "id_hash m f (Quad a None s p ob g) = Inr i \<Longrightarrow> id_hash m f (Quad a' (Some i) s p ob g) = Inr i"
  "id_hash m f (Literal a None v l d) = Inr i \<Longrightarrow> id_hash m f (Literal a' (Some i) v l d) = Inr i"
  "id_hash m f (NamedNode a None v) = Inr i \<Longrightarrow> id_hash m f (NamedNode a' (Some i) v) = Inr i"
  "id_hash m f (BlankNode a None v) = Inr i \<Longrightarrow> id_hash m f (BlankNode a' (Some i) v) = Inr i"
  by (cases "i = 0"; simp)+

lemma memo_get_upd [simp]:
  "memo_get (mm(i \<mapsto> t)) j = (if j = i then t else memo_get mm j)"
  by (simp add: memo_get_def)

lemma store_hash_seed [simp]: "seedBase (snd (store_hash f i mk)) = seedBase f"
  by (simp add: store_hash_def)

lemma store_hash_bnIndex [simp]: "bnIndex (snd (store_hash f i mk)) = bnIndex f"
  by (simp add: store_hash_def)

lemma store_hash_result:
  "truthy (mk (nextAddr f)) \<Longrightarrow>
   \<exists>t. fst (store_hash f i mk) = Inr t \<and> truthy t
      \<and> memo_get (memoizationMap (snd (store_hash f i mk))) i = t"
  by (simp add: store_hash_def)

lemma store_hash_keeps:
  "truthy (memo_get (memoizationMap f) j) \<Longrightarrow>
   memo_get (memoizationMap (snd (store_hash f i mk))) j = memo_get (memoizationMap f) j"
  by (auto simp: store_hash_def)

lemma store_hash_hit:
  "truthy (memo_get (memoizationMap f) i) \<Longrightarrow>
   store_hash f i mk = (Inr (memo_get (memoizationMap f) i), f)"
  by (simp add: store_hash_def)

lemma store_hash_again:
  assumes "truthy (mk (nextAddr f))"
  shows "store_hash (snd (store_hash f i mk)) i mk' = store_hash f i mk"
  using assms by (simp add: store_hash_def)

lemma store_hash_Inr: "\<exists>t. fst (store_hash f i mk) = Inr t"
  by (simp add: store_hash_def)

lemma one_address_empty [simp]: "one_address Map.empty"
  by (simp add: one_address_def)

lemma one_address_insert:
  assumes "one_address mm" "address t = Some a"
    and "\<And>j u. mm j = Some u \<Longrightarrow> \<exists>b. address u = Some b \<and> b < a"
  shows "one_address (mm(i \<mapsto> t))"
  unfolding one_address_def
proof (intro allI impI)
  fix j k u w
  assume h: "(mm(i \<mapsto> t)) j = Some u \<and> (mm(i \<mapsto> t)) k = Some w \<and> address u = address w"
  show "j = k"
  proof (cases "j = i"; cases "k = i")
    assume "j \<noteq> i" "k \<noteq> i"
    then show ?thesis using h assms(1) unfolding one_address_def by (metis fun_upd_other)
  next
    assume "j = i" "k \<noteq> i"
    then have "u = t" "mm k = Some w" using h by simp_all
    then show ?thesis using h assms(2) assms(3) [of k w] by auto
  next
    assume "j \<noteq> i" "k = i"
    then have "w = t" "mm j = Some u" using h by simp_all
    then show ?thesis using h assms(2) assms(3) [of j u] by auto
  qed simp
qed

lemma store_hash_wf:
  assumes "wf_hash m f"
    and "\<And>a. truthy (mk a) \<and> prop_id (mk a) = Some i \<and> id_hash m f (mk a) = Inr i
           \<and> address (mk a) = Some a"
  shows "wf_hash m (snd (store_hash f i mk))"
proof (cases "truthy (memo_get (memoizationMap f) i)")
  case True
  then show ?thesis using assms(1) by (simp add: store_hash_def)
next
  case False
  have "truthy t \<and> prop_id t = Some j \<and> id_hash m f t = Inr j
          \<and> (\<exists>a. address t = Some a \<and> a < Suc (nextAddr f))"
    if "((memoizationMap f)(i \<mapsto> mk (nextAddr f))) j = Some t" for j t
  proof (cases "j = i")
    case True
    then show ?thesis using that assms(2) [of "nextAddr f"] by auto
  next
    case False
    then have "memoizationMap f j = Some t" using that by simp
    then show ?thesis using assms(1) unfolding wf_hash_def by (meson less_Suc_eq)
  qed
  moreover have "one_address ((memoizationMap f)(i \<mapsto> mk (nextAddr f)))"
    by (rule one_address_insert [where a = "nextAddr f"])
       (use assms in \<open>auto simp: wf_hash_def\<close>)
  ultimately show ?thesis using False by (simp add: store_hash_def wf_hash_def)
qed

lemma wf_hash_new: "wf_hash m (new_hash seed)"
  by (simp add: wf_hash_def new_hash_def)

lemma wf_hash_get:
  "wf_hash m f \<Longrightarrow> truthy (memo_get (memoizationMap f) i) \<Longrightarrow>
   prop_id (memo_get (memoizationMap f) i) = Some i
   \<and> id_hash m f (memo_get (memoizationMap f) i) = Inr i
   \<and> (\<exists>a. address (memo_get (memoizationMap f) i) = Some a \<and> a < nextAddr f)"
  by (auto simp: wf_hash_def memo_get_def split: option.splits)

lemma wf_hash_bnIndex: "wf_hash m (f\<lparr>bnIndex := b\<rparr>) = wf_hash m f"
  by (simp add: wf_hash_def)

lemma id_hash_store [simp]: "id_hash m (snd (store_hash f i mk)) t = id_hash m f t"
  by (rule id_hash_seed) simp

text \<open>The same for a store after the identity has been computed.\<close>

lemma store_or_Inr [simp]: "store_or f (Inr i) mk = store_hash f i (mk i)"
  by (simp add: store_or_def)

lemma store_or_Inl [simp]: "store_or f (Inl e) mk = (Inl e, f)"
  by (simp add: store_or_def)

lemma store_or_seed [simp]: "seedBase (snd (store_or f r mk)) = seedBase f"
  by (cases r) simp_all

lemma id_hash_store_or [simp]: "id_hash m (snd (store_or f r mk)) t = id_hash m f t"
  by (rule id_hash_seed) simp

lemma store_or_keeps:
  "truthy (memo_get (memoizationMap f) j) \<Longrightarrow>
   memo_get (memoizationMap (snd (store_or f r mk))) j = memo_get (memoizationMap f) j"
  by (cases r) (simp_all add: store_hash_keeps)

lemma store_or_again:
  assumes "\<And>i. truthy (mk i (nextAddr f))"
  shows "store_or (snd (store_or f r mk)) r mk' = store_or f r mk"
  using assms by (cases r) (simp_all add: store_hash_again)

lemma store_or_wf:
  assumes "wf_hash m f"
    and "\<And>i a. r = Inr i \<Longrightarrow> truthy (mk i a) \<and> prop_id (mk i a) = Some i
           \<and> id_hash m f (mk i a) = Inr i \<and> address (mk i a) = Some a"
  shows "wf_hash m (snd (store_or f r mk))"
proof (cases r)
  case (Inl e)
  then show ?thesis using assms(1) by simp
next
  case (Inr i)
  show ?thesis unfolding Inr store_or_Inr
    by (rule store_hash_wf [OF assms(1)]) (use assms(2) [OF Inr] in blast)
qed

text \<open>The four operations, each as one step of the store.\<close>

lemma namedNode_hash_store:
  "namedNode_hash m f (JStr s) =
     store_hash f (m s (seedBase f + 2)) (\<lambda>a. NamedNode (Some a) (Some (m s (seedBase f + 2))) s)"
  by (simp add: namedNode_hash_def store_hash_def Let_def)

lemma blankNode_hash_store:
  "s \<noteq> [] \<Longrightarrow> blankNode_hash m f (JStr s) =
     store_hash f (m s (seedBase f + 1)) (\<lambda>a. BlankNode (Some a) (Some (m s (seedBase f + 1))) s)"
  by (simp add: blankNode_hash_def store_hash_def Let_def)

lemma blankNode_hash_fresh:
  "\<not> truthy_js v \<Longrightarrow> blankNode_hash m f v =
     store_hash (f\<lparr>bnIndex := bnIndex f + 1\<rparr>)
       (m (''b'' @ toString (bnIndex f + 1)) (seedBase f + 1))
       (\<lambda>a. BlankNode (Some a) (Some (m (''b'' @ toString (bnIndex f + 1)) (seedBase f + 1)))
              (''b'' @ toString (bnIndex f + 1)))"
  by (cases v) (simp_all add: blankNode_hash_def store_hash_def Let_def)

lemma blankNode_hash_throws:
  "truthy_js v \<Longrightarrow> \<not> is_string v \<Longrightarrow> blankNode_hash m f v = (Inl TypeError, f)"
  by (simp add: blankNode_hash_def)

lemma namedNode_hash_throws:
  "\<not> is_string v \<Longrightarrow> namedNode_hash m f v = (Inl TypeError, f)"
  by (cases v) (simp_all add: namedNode_hash_def)

lemma namedNode_hash_Inr:
  "\<exists>d f1. namedNode_hash m f (JStr s) = (Inr d, f1) \<and> truthy d \<and> seedBase f1 = seedBase f
     \<and> memo_get (memoizationMap f1) (m s (seedBase f + 2)) = d"
proof -
  let ?i = "m s (seedBase f + 2)"
  let ?mk = "\<lambda>a. NamedNode (Some a) (Some ?i) s"
  obtain r f1 where st: "store_hash f ?i ?mk = (r, f1)" by (cases "store_hash f ?i ?mk")
  from store_hash_result [of ?mk f ?i] st
  obtain d where "r = Inr d" "truthy d" "memo_get (memoizationMap f1) ?i = d" by auto
  moreover have "seedBase f1 = seedBase f"
    using store_hash_seed [of f ?i ?mk] st by simp
  ultimately show ?thesis using st by (simp add: namedNode_hash_store)
qed

lemma namedNode_hash_found:
  assumes "seedBase g = seedBase f" "memo_get (memoizationMap g) (m s (seedBase f + 2)) = d" "truthy d"
  shows "namedNode_hash m g (JStr s) = (Inr d, g)"
  using assms by (simp add: namedNode_hash_store store_hash_hit)

lemma namedNode_hash_again:
  "namedNode_hash m (snd (namedNode_hash m f (JStr s))) (JStr s) = namedNode_hash m f (JStr s)"
  by (simp add: namedNode_hash_store store_hash_again)


lemma namedNode_after_store:
  assumes nn: "namedNode_hash m f (JStr s) = (Inr d, f1)"
  shows "namedNode_hash m (snd (store_or f1 r mk)) (JStr s) = (Inr d, snd (store_or f1 r mk))"
proof -
  from namedNode_hash_Inr [of m f s] nn
  have d: "truthy d" "seedBase f1 = seedBase f" "memo_get (memoizationMap f1) (m s (seedBase f + 2)) = d"
    by auto
  show ?thesis
    by (rule namedNode_hash_found) (use d store_or_keeps [of f1 "m s (seedBase f + 2)" r mk] in simp_all)
qed

lemma literal_hash_given:
  "truthy d \<Longrightarrow> literal_hash m f v (Datatype d) =
     store_or f (id_hash m f (Literal None None v [] d)) (\<lambda>i a. Literal (Some a) (Some i) v [] d)"
  by (cases d; cases "id_hash m f (Literal None None v [] d)")
     (simp_all add: literal_hash_def store_hash_def Let_def del: id_hash.simps)

lemma literal_hash_store:
  assumes "\<forall>d. lod = Datatype d \<longrightarrow> \<not> truthy d"
    and "namedNode_hash m f (JStr (datatype_of lod)) = (Inr d, f1)"
  shows "literal_hash m f v lod =
     store_or f1 (id_hash m f (Literal None None v (language_of lod) d))
       (\<lambda>i a. Literal (Some a) (Some i) v (language_of lod) d)"
proof -
  have "truthy d" and sb: "seedBase f1 = seedBase f"
    using namedNode_hash_Inr [of m f "datatype_of lod"] assms(2) by auto
  then have d: "d \<noteq> Undefined" by auto
  have i: "id_hash m f1 t = id_hash m f t" for t
    using sb by (rule id_hash_seed)
  show ?thesis
    using assms d
    by (cases lod; cases "id_hash m f (Literal None None v (language_of lod) d)")
       (simp_all add: literal_hash_def datatype_of_def language_of_def store_hash_def Let_def i
          del: id_hash.simps)
qed


lemma quad_hash_given:
  "truthy g \<Longrightarrow> quad_hash m f s p ob g =
     store_or f (id_hash m f (Quad None None s p ob g)) (\<lambda>i a. Quad (Some a) (Some i) s p ob g)"
  by (simp add: quad_hash_def store_hash_def store_or_def Let_def split: sum.splits)

lemma quad_hash_store:
  assumes "\<not> truthy g" and "namedNode_hash m f (JStr ''rdf:defaultGraph'') = (Inr d, f1)"
  shows "quad_hash m f s p ob g =
     store_or f1 (id_hash m f (Quad None None s p ob d)) (\<lambda>i a. Quad (Some a) (Some i) s p ob d)"
proof -
  have d: "truthy d" and sb: "seedBase f1 = seedBase f"
    using namedNode_hash_Inr [of m f "''rdf:defaultGraph''"] assms(2) by auto
  have i: "id_hash m f1 t = id_hash m f t" for t
    using sb by (rule id_hash_seed)
  have "quad_hash m f s p ob g =
     store_or f1 (id_hash m f1 (Quad None None s p ob d)) (\<lambda>i a. Quad (Some a) (Some i) s p ob d)"
    using assms d
    by (simp add: quad_hash_def defaultGraph_hash_def store_hash_def store_or_def Let_def
          split: sum.splits)
  then show ?thesis by (simp only: i)
qed


text \<open>The operations keep the invariant.\<close>

lemma namedNode_hash_wf:
  assumes "wf_hash m f"
  shows "wf_hash m (snd (namedNode_hash m f v))"
proof (cases v)
  case (JStr s)
  show ?thesis
    unfolding JStr namedNode_hash_store
    by (rule store_hash_wf [OF assms]) simp
qed (use assms in \<open>simp_all add: namedNode_hash_def\<close>)

lemma blankNode_hash_wf:
  assumes "wf_hash m f"
  shows "wf_hash m (snd (blankNode_hash m f v))"
proof -
  consider "truthy_js v" "\<not> is_string v" | s where "v = JStr s" "s \<noteq> []" | "\<not> truthy_js v"
    by (cases v) auto
  then show ?thesis
  proof cases
    case 1
    then show ?thesis using assms by (simp add: blankNode_hash_throws)
  next
    case 2
    show ?thesis
      unfolding 2(1) blankNode_hash_store [OF 2(2)]
      by (rule store_hash_wf [OF assms]) simp
  next
    case 3
    have b: "wf_hash m (f\<lparr>bnIndex := bnIndex f + 1\<rparr>)"
      using assms by (simp add: wf_hash_bnIndex)
    show ?thesis
      unfolding blankNode_hash_fresh [OF 3]
      by (rule store_hash_wf [OF b]) simp
  qed
qed

lemma literal_hash_wf:
  assumes "wf_hash m f"
  shows "wf_hash m (snd (literal_hash m f v lod))"
proof (cases "\<exists>d. lod = Datatype d \<and> truthy d")
  case True
  then obtain d where lod: "lod = Datatype d" and d: "truthy d" by blast
  show ?thesis
    unfolding lod literal_hash_given [OF d]
    by (rule store_or_wf [OF assms]) (simp add: id_hash_stamped(2) del: id_hash.simps)
next
  case False
  then have no: "\<forall>d. lod = Datatype d \<longrightarrow> \<not> truthy d" by blast
  obtain d f1 where nn: "namedNode_hash m f (JStr (datatype_of lod)) = (Inr d, f1)"
    using namedNode_hash_Inr by blast
  have wf1: "wf_hash m f1"
    using namedNode_hash_wf [OF assms, of "JStr (datatype_of lod)"] nn by simp
  have sb: "seedBase f1 = seedBase f"
    using namedNode_hash_Inr [of m f "datatype_of lod"] nn by auto
  have i: "id_hash m f1 t = id_hash m f t" for t
    using sb by (rule id_hash_seed)
  show ?thesis
    unfolding literal_hash_store [OF no nn]
    by (rule store_or_wf [OF wf1]) (simp add: i id_hash_stamped(2) del: id_hash.simps)
qed

lemma quad_hash_wf:
  assumes "wf_hash m f"
  shows "wf_hash m (snd (quad_hash m f s p ob g))"
proof (cases "truthy g")
  case True
  show ?thesis
    unfolding quad_hash_given [OF True]
    by (rule store_or_wf [OF assms]) (simp add: id_hash_stamped(1) del: id_hash.simps)
next
  case False
  obtain d f1 where nn: "namedNode_hash m f (JStr ''rdf:defaultGraph'') = (Inr d, f1)"
    using namedNode_hash_Inr by blast
  have wf1: "wf_hash m f1"
    using namedNode_hash_wf [OF assms, of "JStr ''rdf:defaultGraph''"] nn by simp
  have d: "truthy d" and sb: "seedBase f1 = seedBase f"
    using namedNode_hash_Inr [of m f "''rdf:defaultGraph''"] nn by auto
  have i: "id_hash m f1 t = id_hash m f t" for t
    using sb by (rule id_hash_seed)
  show ?thesis
    unfolding quad_hash_store [OF False nn]
    by (rule store_or_wf [OF wf1]) (simp add: i id_hash_stamped(1) del: id_hash.simps)
qed

section \<open>The counting factory: lemmas\<close>

lemma bumps_refl [simp]: "bumps f f"
  by (simp add: bumps_def)

lemma bumps_trans: "bumps f g \<Longrightarrow> bumps g h \<Longrightarrow> bumps f h"
  unfolding bumps_def
  by (metis (no_types, lifting) index_factory.surjective index_factory.update_convs(1) order_trans)

lemma bumps_step [simp]: "bumps f (f\<lparr>index := index f + 1\<rparr>)"
  by (simp add: bumps_def)

lemma bumps_fields:
  assumes "bumps f f'"
  shows "memoizationMap f' = memoizationMap f" "table c f' = table c f" "bnIndex f' = bnIndex f"
    "nextAddr f' = nextAddr f" "index f \<le> index f'"
proof -
  from assms have e: "f' = f\<lparr>index := index f'\<rparr>" and "index f \<le> index f'"
    by (simp_all add: bumps_def)
  show "index f \<le> index f'" by fact
  show "memoizationMap f' = memoizationMap f" by (subst e) simp
  show "bnIndex f' = bnIndex f" by (subst e) simp
  show "nextAddr f' = nextAddr f" by (subst e) simp
  show "table c f' = table c f" by (subst e) (cases c; simp)
qed

lemma entry_id_bumps: "entry_id f t = (r, f') \<Longrightarrow> bumps f f'"
  by (auto simp: entry_id_def split: if_splits)

lemma id_index_mapId_bumps:
  "(\<forall>f r f'. id_index f t = (r, f') \<longrightarrow> bumps f f')
   \<and> (\<forall>f r f'. mapId f t = (r, f') \<longrightarrow> bumps f f')"
proof (induction t)
  case (Quad a i s p ob g)
  have key: "bumps f f'" if "mapId f (Quad a i s p ob g) = (r, f')" for f r f'
  proof -
    obtain r1 f1 where 1: "id_index f s = (r1, f1)" by (cases "id_index f s")
    obtain r2 f2 where 2: "id_index f1 p = (r2, f2)" by (cases "id_index f1 p")
    obtain r3 f3 where 3: "id_index f2 ob = (r3, f3)" by (cases "id_index f2 ob")
    obtain r4 f4 where 4: "id_index f3 g = (r4, f4)" by (cases "id_index f3 g")
    have b1: "bumps f f1" using Quad.IH(1) 1 by blast
    have b2: "bumps f1 f2" using Quad.IH(2) 2 by blast
    have b3: "bumps f2 f3" using Quad.IH(3) 3 by blast
    have b4: "bumps f3 f4" using Quad.IH(4) 4 by blast
    have c2: "bumps f f2" using b1 b2 by (rule bumps_trans)
    have c3: "bumps f f3" using c2 b3 by (rule bumps_trans)
    have c4: "bumps f f4" using c3 b4 by (rule bumps_trans)
    note b = b1 and c = c2 c3 c4
    show ?thesis
      using that 1 2 3 4 b(1) c
      by (auto split: sum.splits if_splits)
  qed
  have "bumps f f'" if "id_index f (Quad a i s p ob g) = (r, f')" for f r f'
  proof (cases "assigned i")
    case (Some n)
    then show ?thesis using that by simp
  next
    case None
    obtain rk fk where k: "mapId f (Quad a i s p ob g) = (rk, fk)"
      by (cases "mapId f (Quad a i s p ob g)")
    have bk: "bumps f fk" using key [OF k] .
    show ?thesis
    proof (cases rk)
      case (Inl e)
      then show ?thesis using that None k bk by (simp del: mapId.simps)
    next
      case (Inr x)
      then have "entry_id fk (obj_get (quadMap fk) (show_str x)) = (r, f')"
        using that None k by (simp del: mapId.simps)
      then have "bumps fk f'" by (rule entry_id_bumps)
      with bk show ?thesis by (rule bumps_trans)
    qed
  qed
  with key show ?case by blast
qed (auto split: option.splits prod.splits sum.splits if_splits dest!: entry_id_bumps)

lemma id_index_bumps: "id_index f t = (r, f') \<Longrightarrow> bumps f f'"
  using id_index_mapId_bumps by blast

lemma mapId_bumps: "mapId f t = (r, f') \<Longrightarrow> bumps f f'"
  using id_index_mapId_bumps by blast

lemma obj_get_upd [simp]:
  "obj_get (mm(k \<mapsto> t)) k' = (if k' = k then t else obj_get mm k')"
  by (simp add: obj_get_def)

lemma obj_get_empty: "k \<notin> set Object_prototype \<Longrightarrow> obj_get Map.empty k = Undefined"
  by (simp add: obj_get_def)

lemma obj_get_proto:
  "mm k = None \<Longrightarrow> k \<in> set Object_prototype \<Longrightarrow> obj_get mm k = Builtin k"
  by (simp add: obj_get_def)

lemma obj_get_Some: "mm k = Some t \<Longrightarrow> obj_get mm k = t"
  by (simp add: obj_get_def)

lemma table_put [simp]:
  "table c (put c' k t f) = (if c = c' then (table c f)(k \<mapsto> t) else table c f)"
  by (cases c; cases c'; simp)

lemma put_fields [simp]:
  "index (put c k t f) = index f" "memoizationMap (put c k t f) = memoizationMap f"
  "nextAddr (put c k t f) = nextAddr f" "bnIndex (put c k t f) = bnIndex f"
  by (cases c; simp)+

lemma table_upd [simp]:
  "table c (f\<lparr>index := n\<rparr>) = table c f"
  "table c (f\<lparr>memoizationMap := mm\<rparr>) = table c f"
  "table c (f\<lparr>nextAddr := na\<rparr>) = table c f"
  "table c (f\<lparr>bnIndex := b\<rparr>) = table c f"
  by (cases c; simp)+

lemma store_index_hit:
  "truthy (obj_get (table c f) k) \<Longrightarrow> store_index c f k mk = (Inr (obj_get (table c f) k), f)"
  by (simp add: store_index_def)

lemma store_index_result:
  "truthy (mk (nextAddr f) (index f)) \<Longrightarrow>
   \<exists>t. fst (store_index c f k mk) = Inr t \<and> truthy t
      \<and> obj_get (table c (snd (store_index c f k mk))) k = t"
  by (simp add: store_index_def)


lemma store_index_other_table:
  "c' \<noteq> c \<Longrightarrow> table c' (snd (store_index c f k mk)) = table c' f"
  by (simp add: store_index_def)


lemma store_index_bnIndex [simp]: "bnIndex (snd (store_index c f k mk)) = bnIndex f"
  by (simp add: store_index_def)

lemma store_index_index: "index f \<le> index (snd (store_index c f k mk))"
  by (simp add: store_index_def)

text \<open>An identified object: \<open>id\<close> returns its identity and changes nothing.\<close>

lemma identified_iff: "identified t \<longleftrightarrow> (\<exists>n. prop_id t = Some n \<and> n \<noteq> 0)"
  by (cases "prop_id t") (auto simp: identified_def)

lemma id_index_identified:
  "identified t \<Longrightarrow> id_index f t = (Inr (prop_id t), f)"
  by (cases t) (auto simp: identified_iff)

lemma id_hash_identified:
  "identified t \<Longrightarrow> \<exists>n. prop_id t = Some n \<and> id_hash m f t = Inr n"
  by (cases t) (auto simp: identified_iff)

lemma identified_nonzero: "identified t \<Longrightarrow> prop_id t \<noteq> Some 0 \<and> prop_id t \<noteq> None"
  by (auto simp: identified_iff)

text \<open>The invariant.\<close>

lemma wf_index_new: "wf_index new_index"
proof -
  have "table c new_index = Map.empty" for c
    by (cases c) (simp_all add: new_index_def)
  then show ?thesis by (simp add: wf_index_def) (simp add: new_index_def)
qed

lemma wf_index_bumps:
  assumes "wf_index f" "bumps f f'"
  shows "wf_index f'"
proof -
  note b = bumps_fields [OF assms(2)]
  show ?thesis
    using assms(1) unfolding wf_index_def b(1,2,4)
    using b(5) by fastforce
qed

lemma wf_index_bnIndex: "wf_index (f\<lparr>bnIndex := b\<rparr>) = wf_index f"
  by (simp add: wf_index_def)

lemma wf_index_entry:
  "wf_index f \<Longrightarrow> table c f k = Some t \<Longrightarrow> \<exists>n. prop_id t = Some n \<and> 1 \<le> n \<and> n < index f
     \<and> memoizationMap f n = Some t \<and> truthy t \<and> (\<exists>a. address t = Some a \<and> a < nextAddr f)"
  unfolding wf_index_def by blast

lemma wf_index_kind: "wf_index f \<Longrightarrow> table c f k = Some t \<Longrightarrow> kind_ok c k t"
  unfolding wf_index_def by blast

lemma wf_index_inj:
  "wf_index f \<Longrightarrow> table c f k = Some t \<Longrightarrow> table c' f k' = Some t \<Longrightarrow> c = c' \<and> k = k'"
  unfolding wf_index_def by blast

lemma store_index_wf:
  assumes wf: "wf_index f"
    and mk: "\<And>a n. truthy (mk a n) \<and> prop_id (mk a n) = Some n \<and> address (mk a n) = Some a"
    and nv: "\<And>a n. kind_ok c k (mk a n)"
  shows "wf_index (snd (store_index c f k mk))"
proof (cases "truthy (obj_get (table c f) k)")
  case True
  then show ?thesis using wf by (simp add: store_index_hit)
next
  case False
  let ?t = "mk (nextAddr f) (index f)"
  let ?f' = "(put c k ?t f)\<lparr>index := index f + 1,
               memoizationMap := (memoizationMap f)(index f \<mapsto> ?t),
               nextAddr := Suc (nextAddr f)\<rparr>"
  have eq: "snd (store_index c f k mk) = ?f'" using False by (simp add: store_index_def)
  have fresh: "memoizationMap f (index f) = None"
    using wf unfolding wf_index_def by (metis less_irrefl option.exhaust)
  have tab: "table c' ?f' = (if c' = c then (table c f)(k \<mapsto> ?t) else table c' f)" for c'
    by simp
  have addr: "address ?t = Some (nextAddr f)" using mk [of "nextAddr f" "index f"] by simp
  have old: "u \<noteq> ?t" if "table c' f k' = Some u" for c' k' u
    using wf_index_entry [OF wf that] addr by auto
  have "1 \<le> index ?f'" using wf by (simp add: wf_index_def)
  moreover have "1 \<le> n \<and> n < index ?f' \<and> prop_id t = Some n \<and> truthy t
      \<and> (\<exists>a. address t = Some a \<and> a < nextAddr ?f')"
    if "memoizationMap ?f' n = Some t" for n t
  proof (cases "n = index f")
    case True
    then show ?thesis using that wf mk [of "nextAddr f" "index f"] by (simp add: wf_index_def)
  next
    case False
    then have "memoizationMap f n = Some t" using that by simp
    then have "1 \<le> n \<and> n < index f \<and> prop_id t = Some n \<and> truthy t
      \<and> (\<exists>a. address t = Some a \<and> a < nextAddr f)"
      using wf unfolding wf_index_def by blast
    then show ?thesis by auto
  qed
  moreover have "(\<exists>n. prop_id t = Some n \<and> memoizationMap ?f' n = Some t) \<and> kind_ok c' k' t"
    if "table c' ?f' k' = Some t" for c' k' t
  proof (cases "c' = c \<and> k' = k")
    case True
    then have "t = ?t" using that by simp
    then show ?thesis using mk [of "nextAddr f" "index f"] nv True by simp
  next
    case False
    then have t: "table c' f k' = Some t" using that by (auto split: if_splits)
    then obtain n where n: "prop_id t = Some n" "n < index f" "memoizationMap f n = Some t"
      using wf_index_entry [OF wf] by blast
    then show ?thesis using wf_index_kind [OF wf t] by auto
  qed
  moreover have "c1 = c2 \<and> k1 = k2"
    if "table c1 ?f' k1 = Some t \<and> table c2 ?f' k2 = Some t" for c1 k1 c2 k2 t
  proof (cases "c1 = c \<and> k1 = k"; cases "c2 = c \<and> k2 = k")
    assume a: "\<not> (c1 = c \<and> k1 = k)" "\<not> (c2 = c \<and> k2 = k)"
    then have "table c1 f k1 = Some t" "table c2 f k2 = Some t"
      using that by (auto simp: tab split: if_splits)
    then show ?thesis by (rule wf_index_inj [OF wf])
  next
    assume a: "c1 = c \<and> k1 = k" "\<not> (c2 = c \<and> k2 = k)"
    then have "t = ?t" "table c2 f k2 = Some t"
      using that by (auto simp: tab split: if_splits)
    then show ?thesis using old by blast
  next
    assume a: "\<not> (c1 = c \<and> k1 = k)" "c2 = c \<and> k2 = k"
    then have "t = ?t" "table c1 f k1 = Some t"
      using that by (auto simp: tab split: if_splits)
    then show ?thesis using old by blast
  qed simp
  moreover have "one_address (memoizationMap ?f')"
  proof -
    have "one_address ((memoizationMap f)(index f \<mapsto> ?t))"
      by (rule one_address_insert [where a = "nextAddr f"])
         (use wf mk [of "nextAddr f" "index f"] in \<open>auto simp: wf_index_def\<close>)
    then show ?thesis by simp
  qed
  ultimately show ?thesis unfolding eq wf_index_def by blast
qed

lemma id_index_wf: "wf_index f \<Longrightarrow> id_index f t = (r, f') \<Longrightarrow> wf_index f'"
  using id_index_bumps wf_index_bumps by blast

lemma mapId_wf: "wf_index f \<Longrightarrow> mapId f t = (r, f') \<Longrightarrow> wf_index f'"
  using mapId_bumps wf_index_bumps by blast

lemma entry_id_nonzero:
  assumes "wf_index f" "entry_id f (obj_get (table c f) k) = (Inr x, f')"
  shows "x \<noteq> Some 0"
proof (cases "table c f k")
  case None
  then show ?thesis using assms
    by (auto simp: entry_id_def obj_get_def wf_index_def split: if_splits)
next
  case (Some t)
  then obtain n where "prop_id t = Some n" "1 \<le> n" "truthy t"
    using wf_index_entry [OF assms(1)] by blast
  then show ?thesis using assms(2) Some by (auto simp: entry_id_def obj_get_def)
qed

lemma id_index_nonzero:
  assumes wf: "wf_index f" and r: "id_index f t = (Inr x, f')"
  shows "x \<noteq> Some 0"
proof -
  have ent: "y \<noteq> Some 0" if "mapId f t = (Inr k, f1)"
      "entry_id f1 (obj_get (table c f1) (show_str k)) = (Inr y, f2)" for c k f1 y f2
    using entry_id_nonzero [OF mapId_wf [OF wf that(1)] that(2)] .
  show ?thesis
  proof (cases "assigned (prop_id t)")
    case (Some n)
    then have "identified t" by (simp add: identified_def)
    then show ?thesis using r identified_nonzero [of t] by (simp add: id_index_identified)
  next
    case None
    show ?thesis
    proof (cases t)
      case (Quad a i s p ob g)
      then show ?thesis using r None ent [of _ _ KQuad]
        by (auto simp del: mapId.simps split: prod.splits sum.splits)
    next
      case (BlankNode a i v)
      then show ?thesis using r None ent [of _ _ KBlank]
        by (auto simp del: mapId.simps split: prod.splits sum.splits)
    next
      case (NamedNode a i v)
      then show ?thesis using r None ent [of _ _ KNamed]
        by (auto simp del: mapId.simps split: prod.splits sum.splits)
    next
      case (Literal a i v l d)
      then show ?thesis using r None ent [of _ _ KLiteral]
        by (auto simp del: mapId.simps split: prod.splits sum.splits)
    qed (use r None in auto)
  qed
qed

lemma namedNode_index_store:
  "namedNode_index f (JStr s) = store_index KNamed f s (\<lambda>a n. NamedNode (Some a) (Some n) s)"
  by (simp add: namedNode_index_def store_index_def Let_def)

lemma namedNode_index_throws: "\<not> is_string v \<Longrightarrow> namedNode_index f v = (Inl TypeError, f)"
  by (cases v) (simp_all add: namedNode_index_def)

lemma blankNode_index_store:
  "s \<noteq> [] \<Longrightarrow>
   blankNode_index f (JStr s) = store_index KBlank f s (\<lambda>a n. BlankNode (Some a) (Some n) s)"
  by (simp add: blankNode_index_def store_index_def Let_def)

lemma blankNode_index_fresh:
  "\<not> truthy_js v \<Longrightarrow> blankNode_index f v =
     store_index KBlank (f\<lparr>bnIndex := bnIndex f + 1\<rparr>) (''_:b'' @ toString (bnIndex f + 1))
       (\<lambda>a n. BlankNode (Some a) (Some n) (''_:b'' @ toString (bnIndex f + 1)))"
  by (cases v) (simp_all add: blankNode_index_def store_index_def Let_def)

lemma blankNode_index_throws:
  "truthy_js v \<Longrightarrow> \<not> is_string v \<Longrightarrow> blankNode_index f v = (Inl TypeError, f)"
  by (simp add: blankNode_index_def)

lemma namedNode_index_Inr:
  "\<exists>d f1. namedNode_index f (JStr s) = (Inr d, f1) \<and> truthy d \<and> obj_get (namedNodeMap f1) s = d
     \<and> literalMap f1 = literalMap f \<and> quadMap f1 = quadMap f"
proof -
  let ?mk = "\<lambda>a n. NamedNode (Some a) (Some n) s"
  obtain r f1 where st: "store_index KNamed f s ?mk = (r, f1)" by (cases "store_index KNamed f s ?mk")
  from store_index_result [of ?mk f KNamed s] st
  obtain d where "r = Inr d" "truthy d" "obj_get (namedNodeMap f1) s = d" by auto
  moreover have "literalMap f1 = literalMap f" "quadMap f1 = quadMap f"
    using store_index_other_table [of KLiteral KNamed f s ?mk]
      store_index_other_table [of KQuad KNamed f s ?mk] st by simp_all
  ultimately show ?thesis using st by (simp add: namedNode_index_store)
qed





lemma literal_index_given:
  "truthy d \<Longrightarrow> literal_index f v (Datatype d) =
     store_index KLiteral f (v @ '','' @ [] @ '','' @ show_str (prop_value d))
       (\<lambda>a n. Literal (Some a) (Some n) v [] d)"
  by (cases d) (simp_all add: literal_index_def store_index_def Let_def)

lemma literal_index_store:
  assumes "\<forall>d. lod = Datatype d \<longrightarrow> \<not> truthy d"
    and "namedNode_index f (JStr (datatype_of lod)) = (Inr d, f1)"
  shows "literal_index f v lod =
     store_index KLiteral f1 (v @ '','' @ language_of lod @ '','' @ show_str (prop_value d))
       (\<lambda>a n. Literal (Some a) (Some n) v (language_of lod) d)"
proof -
  have "truthy d" using namedNode_index_Inr [of f "datatype_of lod"] assms(2) by auto
  then have d: "d \<noteq> Undefined" "d \<noteq> Null" by auto
  show ?thesis
    using assms d
    by (cases lod)
       (simp_all add: literal_index_def datatype_of_def language_of_def store_index_def Let_def)
qed




lemma namedNode_index_wf:
  assumes "wf_index f"
  shows "wf_index (snd (namedNode_index f v))"
proof (cases v)
  case (JStr s)
  show ?thesis
    unfolding JStr namedNode_index_store
    by (rule store_index_wf [OF assms]) simp_all
qed (use assms in \<open>simp_all add: namedNode_index_def\<close>)

lemma blankNode_index_wf:
  assumes "wf_index f"
  shows "wf_index (snd (blankNode_index f v))"
proof -
  consider "truthy_js v" "\<not> is_string v" | s where "v = JStr s" "s \<noteq> []" | "\<not> truthy_js v"
    by (cases v) auto
  then show ?thesis
  proof cases
    case 1
    then show ?thesis using assms by (simp add: blankNode_index_throws)
  next
    case 2
    show ?thesis
      unfolding 2(1) blankNode_index_store [OF 2(2)]
      by (rule store_index_wf [OF assms]) simp_all
  next
    case 3
    have b: "wf_index (f\<lparr>bnIndex := bnIndex f + 1\<rparr>)"
      using assms by (simp add: wf_index_bnIndex)
    show ?thesis
      unfolding blankNode_index_fresh [OF 3]
      by (rule store_index_wf [OF b]) simp_all
  qed
qed

lemma literal_index_wf:
  assumes "wf_index f"
  shows "wf_index (snd (literal_index f v lod))"
proof (cases "\<exists>d. lod = Datatype d \<and> truthy d")
  case True
  then obtain d where lod: "lod = Datatype d" and d: "truthy d" by blast
  show ?thesis
    unfolding lod literal_index_given [OF d]
    by (rule store_index_wf [OF assms]) (simp_all add: d)
next
  case False
  then have no: "\<forall>d. lod = Datatype d \<longrightarrow> \<not> truthy d" by blast
  obtain d f1 where nn: "namedNode_index f (JStr (datatype_of lod)) = (Inr d, f1)"
    and d: "truthy d"
    using namedNode_index_Inr by blast
  have wf1: "wf_index f1"
    using namedNode_index_wf [OF assms, of "JStr (datatype_of lod)"] nn by simp
  show ?thesis
    unfolding literal_index_store [OF no nn]
    by (rule store_index_wf [OF wf1]) (simp_all add: d)
qed

lemma quadMapId_bumps:
  assumes "quadMapId f s p ob g = (r, f')"
  shows "bumps f f'"
proof -
  obtain r1 f1 where 1: "id_index f s = (r1, f1)" by (cases "id_index f s")
  obtain r2 f2 where 2: "id_index f1 p = (r2, f2)" by (cases "id_index f1 p")
  obtain r3 f3 where 3: "id_index f2 ob = (r3, f3)" by (cases "id_index f2 ob")
  obtain r4 f4 where 4: "id_index f3 g = (r4, f4)" by (cases "id_index f3 g")
  have b1: "bumps f f1" using 1 by (rule id_index_bumps)
  have c2: "bumps f f2" using b1 id_index_bumps [OF 2] by (rule bumps_trans)
  have c3: "bumps f f3" using c2 id_index_bumps [OF 3] by (rule bumps_trans)
  have c4: "bumps f f4" using c3 id_index_bumps [OF 4] by (rule bumps_trans)
  show ?thesis
    using assms 1 2 3 4 b1 c2 c3 c4
    by (auto simp: quadMapId_def split: sum.splits if_splits)
qed

lemma quad_index_wf:
  assumes "wf_index f"
  shows "wf_index (snd (quad_index f s p ob g))"
proof -
  obtain ug f0 where r: "(if truthy g then (Inr g, f) else defaultGraph_index f) = (Inr ug, f0)"
    and wf0: "wf_index f0"
  proof (cases "truthy g")
    case True
    then show ?thesis using that [of g f] assms by simp
  next
    case False
    obtain d f1 where nn: "namedNode_index f (JStr ''rdf:defaultGraph'') = (Inr d, f1)"
      using namedNode_index_Inr by blast
    have "wf_index f1"
      using namedNode_index_wf [OF assms, of "JStr ''rdf:defaultGraph''"] nn by simp
    then show ?thesis using that [of d f1] False nn by (simp add: defaultGraph_index_def)
  qed
  obtain rk f1 where k: "quadMapId f0 s p ob g = (rk, f1)" by (cases "quadMapId f0 s p ob g")
  have wf1: "wf_index f1" using wf0 quadMapId_bumps [OF k] by (rule wf_index_bumps)
  show ?thesis
  proof (cases rk)
    case (Inl e)
    then show ?thesis using r k wf1 by (simp add: quad_index_def)
  next
    case (Inr key)
    have "quad_index f s p ob g = store_index KQuad f1 key (\<lambda>a n. Quad (Some a) (Some n) s p ob ug)"
      using r k Inr by (simp add: quad_index_def store_index_def Let_def)
    moreover have "wf_index (snd (store_index KQuad f1 key (\<lambda>a n. Quad (Some a) (Some n) s p ob ug)))"
      by (rule store_index_wf [OF wf1]) simp_all
    ultimately show ?thesis by simp
  qed
qed

lemma same_id_bumps: "same_id f a b = (r, f') \<Longrightarrow> bumps f f'"
  by (auto simp: same_id_def split: prod.splits sum.splits
        dest!: id_index_bumps intro: bumps_trans)

lemma and_also_bumps:
  assumes "and_also (same_id f a b) k = (r', f')" "\<And>g r' f'. k g = (r', f') \<Longrightarrow> bumps g f'"
  shows "bumps f f'"
proof -
  obtain r0 f0 where 0: "same_id f a b = (r0, f0)" by (cases "same_id f a b")
  have b: "bumps f f0" using 0 by (rule same_id_bumps)
  show ?thesis
  proof (cases r0)
    case (Inl e)
    then show ?thesis using assms(1) 0 b by (simp add: and_also_def)
  next
    case (Inr c)
    show ?thesis
    proof (cases c)
      case True
      then have "k f0 = (r', f')" using assms(1) 0 Inr by (simp add: and_also_def)
      then have "bumps f0 f'" by (rule assms(2))
      with b show ?thesis by (rule bumps_trans)
    next
      case False
      then show ?thesis using assms(1) 0 Inr b by (simp add: and_also_def)
    qed
  qed
qed

lemma equals_index_bumps: "equals_index f a b = (r, f') \<Longrightarrow> bumps f f'"
proof (induction f a b rule: equals_index.induct)
  case (1 f xs ys)
  show ?case
    using "1.prems" unfolding equals_index.simps
    by (elim and_also_bumps same_id_bumps)
qed (auto split: if_splits dest: same_id_bumps)

section \<open>Content keys\<close>

lemma toString_0 [simp]: "toString 0 = ''0''"
  by (simp add: toString_def digits.simps digit_def)

lemma digit_in: "d < 10 \<Longrightarrow> digit d \<in> set ''0123456789''"
  unfolding digit_def by (rule nth_mem) simp

lemma digits_chars: "set (digits n) \<subseteq> set ''0123456789''"
proof (induction n rule: digits.induct)
  case (1 n)
  show ?case
  proof (cases "n < 10")
    case True
    then show ?thesis using digit_in [of n] by (subst digits.simps) simp
  next
    case False
    have "digit (n mod 10) \<in> set ''0123456789''" by (rule digit_in) simp
    then show ?thesis using False "1.IH" by (subst digits.simps) simp
  qed
qed

lemma show_id_no_comma: "CHR '','' \<notin> set (show_id x)"
proof (cases x)
  case None
  then show ?thesis by simp
next
  case (Some n)
  have "CHR '','' \<notin> set (digits k)" for k using digits_chars [of k] by auto
  then show ?thesis using Some by (simp add: toString_def)
qed

lemma last_slot:
  assumes "CHR '','' \<notin> set c" "CHR '','' \<notin> set d" "A @ '','' @ c = B @ '','' @ d"
  shows "c = d"
proof -
  have tw: "takeWhile (\<lambda>x. x \<noteq> CHR '','') (rev (X @ '','' @ e)) = rev e" if "CHR '','' \<notin> set e" for X e
  proof -
    have "takeWhile (\<lambda>x. x \<noteq> CHR '','') (rev e @ CHR '','' # rev X)
            = rev e @ takeWhile (\<lambda>x. x \<noteq> CHR '','') (CHR '','' # rev X)"
      by (rule takeWhile_append2) (use that in auto)
    then show ?thesis by simp
  qed
  have "rev (A @ '','' @ c) = rev (B @ '','' @ d)"
    using assms(3) by (rule arg_cong)
  then have "takeWhile (\<lambda>x. x \<noteq> CHR '','') (rev (A @ '','' @ c))
               = takeWhile (\<lambda>x. x \<noteq> CHR '','') (rev (B @ '','' @ d))"
    by (rule arg_cong)
  then have "rev c = rev d"
    by (simp only: tw [OF assms(1)] tw [OF assms(2)])
  then show ?thesis by simp
qed

lemma show_id_zero: "show_id x = ''0'' \<longleftrightarrow> x = Some 0"
  by (cases x) (simp_all add: toString_zero)

lemma quadMapId_Inr:
  assumes "quadMapId f s p ob g = (Inr k, f4)"
  shows "\<exists>x1 f1 x2 f2 x3 f3 x4.
           id_index f s = (Inr x1, f1) \<and> id_index f1 p = (Inr x2, f2)
         \<and> id_index f2 ob = (Inr x3, f3)
         \<and> (if truthy g then id_index f3 g = (Inr x4, f4) else x4 = Some 0 \<and> f4 = f3)
         \<and> k = show_id x1 @ '','' @ show_id x2 @ '','' @ show_id x3 @ '','' @ show_id x4"
  using assms
  by (auto simp: quadMapId_def split: prod.splits sum.splits if_splits)

lemma toString_small:
  "toString 1 = ''1''" "toString 2 = ''2''" "toString 3 = ''3''" "toString 4 = ''4''"
  "toString 5 = ''5''" "toString 6 = ''6''" "toString 7 = ''7''" "toString 8 = ''8''"
  "toString 9 = ''9''" "toString 10 = ''10''" "toString (- 1) = ''-1''"
  by (simp_all add: toString_def digits.simps digit_def)

lemma quadMapId_wf_slot:
  assumes wf: "wf_index f" and k: "quadMapId f s p ob g = (Inr k, f4)"
  shows "\<exists>x1 f1 x2 f2 x3 f3 x4.
           id_index f s = (Inr x1, f1) \<and> id_index f1 p = (Inr x2, f2)
         \<and> id_index f2 ob = (Inr x3, f3)
         \<and> (if truthy g then id_index f3 g = (Inr x4, f4) else x4 = Some 0 \<and> f4 = f3)
         \<and> k = show_id x1 @ '','' @ show_id x2 @ '','' @ show_id x3 @ '','' @ show_id x4
         \<and> (show_id x4 = ''0'' \<longleftrightarrow> \<not> truthy g)"
proof -
  from quadMapId_Inr [OF k] obtain x1 f1 x2 f2 x3 f3 x4 where
    i: "id_index f s = (Inr x1, f1)" "id_index f1 p = (Inr x2, f2)" "id_index f2 ob = (Inr x3, f3)"
       "if truthy g then id_index f3 g = (Inr x4, f4) else x4 = Some 0 \<and> f4 = f3"
       "k = show_id x1 @ '','' @ show_id x2 @ '','' @ show_id x3 @ '','' @ show_id x4"
    by blast
  have wf3: "wf_index f3"
    using wf i(1-3) by (blast intro: id_index_wf)
  have "show_id x4 = ''0'' \<longleftrightarrow> \<not> truthy g"
  proof (cases "truthy g")
    case True
    then have "id_index f3 g = (Inr x4, f4)" using i(4) by simp
    then have "x4 \<noteq> Some 0" using wf3 by (rule id_index_nonzero [rotated])
    then show ?thesis using True by (simp add: show_id_zero)
  next
    case False
    then show ?thesis using i(4) by simp
  qed
  with i show ?thesis by blast
qed

lemma quad_keys_differ:
  assumes wf: "wf_index f" and g: "truthy g"
    and k0: "quadMapId f' s p ob Undefined = (Inr k0, f0)"
    and k1: "quadMapId f s p ob g = (Inr k1, f1)"
  shows "k0 \<noteq> k1"
proof
  assume eq: "k0 = k1"
  from quadMapId_Inr [OF k0] obtain y1 y2 y3 where
    a: "k0 = show_id y1 @ '','' @ show_id y2 @ '','' @ show_id y3 @ '','' @ ''0''"
    by auto
  from quadMapId_wf_slot [OF wf k1] g obtain x1 x2 x3 x4 where
    b: "k1 = show_id x1 @ '','' @ show_id x2 @ '','' @ show_id x3 @ '','' @ show_id x4"
    and nz: "show_id x4 \<noteq> ''0''"
    by auto
  have "(show_id y1 @ '','' @ show_id y2 @ '','' @ show_id y3) @ '','' @ ''0''
        = (show_id x1 @ '','' @ show_id x2 @ '','' @ show_id x3) @ '','' @ show_id x4"
    using eq a b by simp
  then have "''0'' = show_id x4"
    by (rule last_slot [rotated 2]) (simp_all add: show_id_no_comma)
  with nz show False by simp
qed


section \<open>Calling twice; what is returned is stored\<close>

lemma store_index_Inr: "\<exists>t. fst (store_index c f k mk) = Inr t"
  by (simp add: store_index_def)


text \<open>The node that \<open>namedNode\<close> returns on a well-formed store has the identity of its IRI.\<close>

lemma namedNode_hash_id:
  assumes wf: "wf_hash m f" and nn: "namedNode_hash m f (JStr s) = (Inr d, f1)"
  shows "id_hash m f d = Inr (m s (seedBase f + 2)) \<and> truthy d \<and> wf_hash m f1
         \<and> seedBase f1 = seedBase f \<and> prop_id d = Some (m s (seedBase f + 2))"
proof -
  from namedNode_hash_Inr [of m f s] nn
  have d: "truthy d" "seedBase f1 = seedBase f" "memo_get (memoizationMap f1) (m s (seedBase f + 2)) = d"
    by auto
  have wf1: "wf_hash m f1" using namedNode_hash_wf [OF wf, of "JStr s"] nn by simp
  have "id_hash m f1 d = Inr (m s (seedBase f + 2))" "prop_id d = Some (m s (seedBase f + 2))"
    using wf_hash_get [OF wf1, of "m s (seedBase f + 2)"] d by simp_all
  moreover have "id_hash m f1 d = id_hash m f d" using d(2) by (rule id_hash_seed)
  ultimately show ?thesis using d wf1 by simp
qed


lemma quad_hash_Inr:
  assumes wf: "wf_hash m f" and ty: "\<not> fails_hash (Quad None None s p ob g)"
  shows "\<exists>t. fst (quad_hash m f s p ob g) = Inr t"
proof (cases "truthy g")
  case True
  obtain i where "id_hash m f (Quad None None s p ob g) = Inr i"
    using id_hash_total [OF ty] by blast
  then show ?thesis unfolding quad_hash_given [OF True] by (simp add: store_hash_Inr)
next
  case False
  obtain d f1 where nn: "namedNode_hash m f (JStr ''rdf:defaultGraph'') = (Inr d, f1)"
    using namedNode_hash_Inr by blast
  have d: "id_hash m f d = Inr (m ''rdf:defaultGraph'' (seedBase f + 2))" "truthy d"
    using namedNode_hash_id [OF wf nn] by simp_all
  obtain x1 where 1: "id_hash m f s = Inr x1" using id_hash_total [of s] ty by auto
  obtain x2 where 2: "id_hash m f p = Inr x2" using id_hash_total [of p] ty by auto
  obtain x3 where 3: "id_hash m f ob = Inr x3" using id_hash_total [of ob] ty by auto
  obtain i where "id_hash m f (Quad None None s p ob d) = Inr i"
    using 1 2 3 d by simp
  then show ?thesis unfolding quad_hash_store [OF False nn] by (simp add: store_hash_Inr)
qed






lemma not_proto_simps:
  "''_:b2'' \<notin> set Object_prototype" "''_:b3'' \<notin> set Object_prototype"
  "''s'' \<notin> set Object_prototype" "''p'' \<notin> set Object_prototype"
  "''o'' \<notin> set Object_prototype" "''g'' \<notin> set Object_prototype"
  "''1,2,3,4'' \<notin> set Object_prototype" "''6,7,8,9'' \<notin> set Object_prototype"
  by (simp_all add: Object_prototype_def)

text \<open>
  In the hashing factory, on a well-formed store, the term an operation returns is the
  entry of the table of identities under its own \<open>id\<close>, at an address the factory
  allocated.
\<close>

lemma store_hash_stored:
  assumes wf: "wf_hash m f"
    and mk: "\<And>a. truthy (mk a) \<and> prop_id (mk a) = Some i \<and> id_hash m f (mk a) = Inr i
           \<and> address (mk a) = Some a"
    and st: "store_hash f i mk = (Inr t, f')"
  shows "prop_id t = Some i \<and> fromId_hash f' i = t \<and> truthy t
         \<and> (\<exists>a. address t = Some a \<and> a < nextAddr f')"
proof -
  have wf': "wf_hash m f'" using store_hash_wf [OF wf mk] st by simp
  have t: "memo_get (memoizationMap f') i = t" "truthy t"
    using store_hash_result [of mk f i] mk st by auto
  show ?thesis using wf_hash_get [OF wf', of i] t by (simp add: fromId_hash_def)
qed

lemma store_or_stored:
  assumes wf: "wf_hash m f"
    and mk: "\<And>i a. r = Inr i \<Longrightarrow> truthy (mk i a) \<and> prop_id (mk i a) = Some i
           \<and> id_hash m f (mk i a) = Inr i \<and> address (mk i a) = Some a"
    and st: "store_or f r mk = (Inr t, f')"
  shows "\<exists>i. r = Inr i \<and> prop_id t = Some i \<and> fromId_hash f' i = t \<and> truthy t
         \<and> (\<exists>a. address t = Some a \<and> a < nextAddr f')"
proof (cases r)
  case (Inl e)
  then show ?thesis using st by simp
next
  case (Inr i)
  have "store_hash f i (mk i) = (Inr t, f')" using st Inr by simp
  from store_hash_stored [OF wf _ this] mk [OF Inr] Inr show ?thesis by blast
qed

lemma namedNode_hash_stored:
  assumes "wf_hash m f" "namedNode_hash m f v = (Inr t, f')"
  shows "\<exists>j a. prop_id t = Some j \<and> fromId_hash f' j = t \<and> address t = Some a \<and> a < nextAddr f'"
proof (cases v)
  case (JStr s)
  show ?thesis
    using store_hash_stored [OF assms(1) _ assms(2) [unfolded JStr namedNode_hash_store]]
    by auto
qed (use assms(2) in \<open>simp_all add: namedNode_hash_def\<close>)

lemma blankNode_hash_stored:
  assumes "wf_hash m f" "blankNode_hash m f v = (Inr t, f')"
  shows "\<exists>j a. prop_id t = Some j \<and> fromId_hash f' j = t \<and> address t = Some a \<and> a < nextAddr f'"
proof -
  consider "truthy_js v" "\<not> is_string v" | s where "v = JStr s" "s \<noteq> []" | "\<not> truthy_js v"
    by (cases v) auto
  then show ?thesis
  proof cases
    case 1
    then show ?thesis using assms(2) by (simp add: blankNode_hash_throws)
  next
    case 2
    show ?thesis
      using store_hash_stored [OF assms(1) _ assms(2) [unfolded 2(1) blankNode_hash_store [OF 2(2)]]]
      by auto
  next
    case 3
    have b: "wf_hash m (f\<lparr>bnIndex := bnIndex f + 1\<rparr>)"
      using assms(1) by (simp add: wf_hash_bnIndex)
    show ?thesis
      using store_hash_stored [OF b _ assms(2) [unfolded blankNode_hash_fresh [OF 3]]]
      by auto
  qed
qed

lemma literal_hash_stored:
  assumes "wf_hash m f" "literal_hash m f v lod = (Inr t, f')"
  shows "\<exists>j a. prop_id t = Some j \<and> fromId_hash f' j = t \<and> address t = Some a \<and> a < nextAddr f'"
proof (cases "\<exists>d. lod = Datatype d \<and> truthy d")
  case True
  then obtain d where lod: "lod = Datatype d" and d: "truthy d" by blast
  have "\<exists>i. id_hash m f (Literal None None v [] d) = Inr i \<and> prop_id t = Some i
          \<and> fromId_hash f' i = t \<and> truthy t \<and> (\<exists>a. address t = Some a \<and> a < nextAddr f')"
    by (rule store_or_stored [OF assms(1) _ assms(2) [unfolded lod literal_hash_given [OF d]]])
       (simp add: id_hash_stamped(2) del: id_hash.simps)
  then show ?thesis by blast
next
  case False
  then have no: "\<forall>d. lod = Datatype d \<longrightarrow> \<not> truthy d" by blast
  obtain d f1 where nn: "namedNode_hash m f (JStr (datatype_of lod)) = (Inr d, f1)"
    using namedNode_hash_Inr by blast
  have wf1: "wf_hash m f1" and sb: "seedBase f1 = seedBase f"
    using namedNode_hash_id [OF assms(1) nn] by simp_all
  have i: "id_hash m f1 t = id_hash m f t" for t
    using sb by (rule id_hash_seed)
  have "\<exists>i. id_hash m f (Literal None None v (language_of lod) d) = Inr i \<and> prop_id t = Some i
          \<and> fromId_hash f' i = t \<and> truthy t \<and> (\<exists>a. address t = Some a \<and> a < nextAddr f')"
    by (rule store_or_stored [OF wf1 _ assms(2) [unfolded literal_hash_store [OF no nn]]])
       (simp add: i id_hash_stamped(2) del: id_hash.simps)
  then show ?thesis by blast
qed

lemma quad_hash_stored:
  assumes "wf_hash m f" "quad_hash m f s p ob g = (Inr t, f')"
  shows "\<exists>j a. prop_id t = Some j \<and> fromId_hash f' j = t \<and> address t = Some a \<and> a < nextAddr f'"
proof (cases "truthy g")
  case True
  have "\<exists>i. id_hash m f (Quad None None s p ob g) = Inr i \<and> prop_id t = Some i
          \<and> fromId_hash f' i = t \<and> truthy t \<and> (\<exists>a. address t = Some a \<and> a < nextAddr f')"
    by (rule store_or_stored [OF assms(1) _ assms(2) [unfolded quad_hash_given [OF True]]])
       (simp add: id_hash_stamped(1) del: id_hash.simps)
  then show ?thesis by blast
next
  case False
  obtain d f1 where nn: "namedNode_hash m f (JStr ''rdf:defaultGraph'') = (Inr d, f1)"
    using namedNode_hash_Inr by blast
  have wf1: "wf_hash m f1" and sb: "seedBase f1 = seedBase f"
    using namedNode_hash_id [OF assms(1) nn] by simp_all
  have i: "id_hash m f1 t = id_hash m f t" for t
    using sb by (rule id_hash_seed)
  have "\<exists>i. id_hash m f (Quad None None s p ob d) = Inr i \<and> prop_id t = Some i
          \<and> fromId_hash f' i = t \<and> truthy t \<and> (\<exists>a. address t = Some a \<and> a < nextAddr f')"
    by (rule store_or_stored [OF wf1 _ assms(2) [unfolded quad_hash_store [OF False nn]]])
       (simp add: i id_hash_stamped(1) del: id_hash.simps)
  then show ?thesis by blast
qed

section \<open>Guards, totality and defaults\<close>

lemma blankNode_hash_falsy:
  "\<not> truthy_js v \<Longrightarrow> blankNode_hash m f v = blankNode_hash m f JUndefined"
  by (simp add: blankNode_hash_fresh)

lemma blankNode_index_falsy:
  "\<not> truthy_js v \<Longrightarrow> blankNode_index h v = blankNode_index h JUndefined"
  by (simp add: blankNode_index_fresh)

lemma entry_id_Inr: "\<exists>x f'. entry_id f t = (Inr x, f')"
  by (simp add: entry_id_def)

text \<open>
  The counting \<open>id\<close> throws exactly on \<^verbatim>\<open>null\<close>, on a literal without identity and without
  datatype, and on a quad without identity through which it reaches one of these.
\<close>

lemma id_index_via_mapId:
  assumes "assigned (prop_id t) = None"
    and "t = Quad a i s p ob g \<and> c = KQuad \<or> t = BlankNode a i v \<and> c = KBlank
         \<or> t = NamedNode a i v \<and> c = KNamed \<or> t = Literal a i v l d \<and> c = KLiteral"
  shows "isl (fst (id_index f t)) \<longleftrightarrow> isl (fst (mapId f t))"
proof -
  have d: "id_index f t =
       (case mapId f t of
          (Inl e, f1) \<Rightarrow> (Inl e, f1)
        | (Inr k, f1) \<Rightarrow> entry_id f1 (obj_get (table c f1) (show_str k)))"
    using assms by (auto simp del: mapId.simps split: prod.splits sum.splits)
  obtain rk f1 where k: "mapId f t = (rk, f1)" by (cases "mapId f t")
  show ?thesis
  proof (cases rk)
    case (Inl e)
    then show ?thesis using d k by simp
  next
    case (Inr key)
    obtain x f2 where "entry_id f1 (obj_get (table c f1) (show_str key)) = (Inr x, f2)"
      using entry_id_Inr by blast
    then show ?thesis using d k Inr by simp
  qed
qed

lemma id_index_fails: "isl (fst (id_index f t)) \<longleftrightarrow> fails_index t"
proof (induction t arbitrary: f)
  case (Quad a i s p ob g)
  show ?case
  proof (cases "assigned i")
    case (Some n)
    then show ?thesis by simp
  next
    case None
    obtain r1 f1 where 1: "id_index f s = (r1, f1)" by (cases "id_index f s")
    obtain r2 f2 where 2: "id_index f1 p = (r2, f2)" by (cases "id_index f1 p")
    obtain r3 f3 where 3: "id_index f2 ob = (r3, f3)" by (cases "id_index f2 ob")
    obtain r4 f4 where 4: "id_index f3 g = (r4, f4)" by (cases "id_index f3 g")
    have i: "isl r1 \<longleftrightarrow> fails_index s" "isl r2 \<longleftrightarrow> fails_index p" "isl r3 \<longleftrightarrow> fails_index ob"
      "isl r4 \<longleftrightarrow> fails_index g"
      using Quad.IH(1) [of f] Quad.IH(2) [of f1] Quad.IH(3) [of f2] Quad.IH(4) [of f3] 1 2 3 4
      by simp_all
    have "isl (fst (mapId f (Quad a i s p ob g)))
        \<longleftrightarrow> fails_index s \<or> fails_index p \<or> fails_index ob \<or> (truthy g \<and> fails_index g)"
      using 1 2 3 4 i by (cases r1; cases r2; cases r3; cases "truthy g"; cases r4) simp_all
    then show ?thesis
      using id_index_via_mapId [of "Quad a i s p ob g" a i s p ob g KQuad] None by simp
  qed
next
  case (Literal a i v l d)
  show ?case
  proof (cases "assigned i")
    case (Some n)
    then show ?thesis by simp
  next
    case None
    have "isl (fst (mapId f (Literal a i v l d))) \<longleftrightarrow> d = Undefined \<or> d = Null" by simp
    then show ?thesis
      using id_index_via_mapId [of "Literal a i v l d" a i _ _ _ _ KLiteral v l d] None by simp
  qed
next
  case (BlankNode a i v)
  show ?case
  proof (cases "assigned i")
    case (Some n)
    then show ?thesis by simp
  next
    case None
    then show ?thesis
      using id_index_via_mapId [of "BlankNode a i v" a i _ _ _ _ KBlank v] by simp
  qed
next
  case (NamedNode a i v)
  show ?case
  proof (cases "assigned i")
    case (Some n)
    then show ?thesis by simp
  next
    case None
    then show ?thesis
      using id_index_via_mapId [of "NamedNode a i v" a i _ _ _ _ KNamed v] by simp
  qed
next
  case (Other a i v)
  show ?case by (cases "assigned i") simp_all
qed simp_all

lemma id_index_TypeError: "id_index f t = (Inl e, f') \<Longrightarrow> e = TypeError"
proof (induction t arbitrary: f f' e)
  case (Quad a i s p ob g)
  then show ?case
    by (auto split: option.splits prod.splits sum.splits if_splits simp: entry_id_def)
qed (auto split: option.splits prod.splits sum.splits if_splits simp: entry_id_def)

lemma id_index_throws: "fails_index t \<Longrightarrow> \<exists>f'. id_index f t = (Inl TypeError, f')"
proof -
  assume "fails_index t"
  then have "isl (fst (id_index f t))" by (simp add: id_index_fails)
  then obtain e f' where "id_index f t = (Inl e, f')"
    by (cases "id_index f t"; cases "fst (id_index f t)") auto
  then show ?thesis using id_index_TypeError by blast
qed

lemma id_index_total: "\<not> fails_index t \<Longrightarrow> \<exists>x f'. id_index f t = (Inr x, f')"
  using id_index_fails [of f t] by (cases "id_index f t"; cases "fst (id_index f t)") auto

lemma comma_not_proto: "CHR '','' \<in> set k \<Longrightarrow> k \<notin> set Object_prototype"
  by (auto simp: Object_prototype_def)

lemma datatype_not_proto: "datatype_of lod \<notin> set Object_prototype"
  by (cases lod)
     (simp_all add: datatype_of_def datatypes_langString_def datatypes_string_def
        Object_prototype_def)

lemma kind_ok_cases:
  "kind_ok KNamed k t \<Longrightarrow> \<exists>a n. t = NamedNode (Some a) (Some n) k"
  "kind_ok KBlank k t \<Longrightarrow> \<exists>a n. t = BlankNode (Some a) (Some n) k"
  "kind_ok KLiteral k t \<Longrightarrow> \<exists>a n v l d. t = Literal (Some a) (Some n) v l d \<and> truthy d
      \<and> k = v @ '','' @ l @ '','' @ show_str (prop_value d)"
  "kind_ok KQuad k t \<Longrightarrow> \<exists>a n s p ob g. t = Quad (Some a) (Some n) s p ob g"
  by (erule kind_ok.elims; simp)+

lemma namedNode_index_node:
  assumes wf: "wf_index f" and s: "s \<notin> set Object_prototype"
  shows "\<exists>a n f1. namedNode_index f (JStr s) = (Inr (NamedNode (Some a) (Some n) s), f1)
           \<and> literalMap f1 = literalMap f \<and> wf_index f1 \<and> n \<noteq> 0"
proof -
  have wf1: "wf_index (snd (namedNode_index f (JStr s)))" using wf by (rule namedNode_index_wf)
  show ?thesis
  proof (cases "namedNodeMap f s")
    case None
    then have u: "obj_get (table KNamed f) s = Undefined" using s by (simp add: obj_get_def)
    have idx: "index f \<noteq> 0" using wf by (simp add: wf_index_def)
    obtain f1 where r: "namedNode_index f (JStr s)
        = (Inr (NamedNode (Some (nextAddr f)) (Some (index f)) s), f1)"
      and l: "literalMap f1 = literalMap f"
      using u by (simp add: namedNode_index_store store_index_def)
    have "wf_index f1" using wf1 r by simp
    with r l idx show ?thesis by blast
  next
    case (Some t)
    then have "kind_ok KNamed s t" using wf_index_kind [OF wf, of KNamed s t] by simp
    then obtain a n where t: "t = NamedNode (Some a) (Some n) s"
      using kind_ok_cases(1) by blast
    have "n \<noteq> 0" using wf_index_entry [OF wf, of KNamed s t] Some t by auto
    moreover have "obj_get (table KNamed f) s = t" using Some by (simp add: obj_get_def)
    ultimately show ?thesis using t wf by (simp add: namedNode_index_store store_index_def)
  qed
qed


section \<open>Identities found without counting\<close>

lemma bumps_same: "bumps f g \<Longrightarrow> index g \<le> index f \<Longrightarrow> g = f"
proof -
  assume "bumps f g" "index g \<le> index f"
  then have e: "g = f\<lparr>index := index g\<rparr>" and "index g = index f" by (simp_all add: bumps_def)
  then have "g = f\<lparr>index := index f\<rparr>" by simp
  then show "g = f" by simp
qed

lemma known_iff: "known f t \<longleftrightarrow> (\<exists>x. id_index f t = (Inr x, f))"
proof
  assume k: "known f t"
  obtain r f' where r: "id_index f t = (r, f')" by (cases "id_index f t")
  then obtain x where x: "r = Inr x" and i: "index f' = index f"
    using k by (cases r) (simp_all add: known_def)
  have "f' = f" using id_index_bumps [OF r] i by (simp add: bumps_same)
  with r x show "\<exists>x. id_index f t = (Inr x, f)" by blast
next
  assume "\<exists>x. id_index f t = (Inr x, f)"
  then show "known f t" by (auto simp: known_def)
qed

lemma entry_id_same: "entry_id f u = (Inr x, f) \<Longrightarrow> truthy u \<and> x = prop_id u"
proof -
  assume a: "entry_id f u = (Inr x, f)"
  show ?thesis
  proof (cases "truthy u")
    case True
    then show ?thesis using a by (simp add: entry_id_def)
  next
    case False
    then have "f\<lparr>index := index f + 1\<rparr> = f" using a by (simp add: entry_id_def)
    then have "index (f\<lparr>index := index f + 1\<rparr>) = index f" by (rule arg_cong)
    then show ?thesis by simp
  qed
qed

lemma entry_id_hit: "truthy u \<Longrightarrow> entry_id f u = (Inr (prop_id u), f)"
  by (simp add: entry_id_def)

lemma grows_refl [simp]: "grows f f"
  by (simp add: grows_def)




text \<open>
  An identity that \<open>id\<close> finds without counting is found again, and is the same, after the
  store has grown.
\<close>

lemma id_via_table:
  assumes d: "\<And>h. id_index h t =
       (case mapId h t of
          (Inl e, h1) \<Rightarrow> (Inl e, h1)
        | (Inr k, h1) \<Rightarrow> entry_id h1 (obj_get (table c h1) (show_str k)))"
    and g: "grows f f'"
    and m: "\<And>k. mapId f t = (Inr k, f) \<Longrightarrow> mapId f' t = (Inr k, f')"
    and r: "id_index f t = (Inr x, f)"
  shows "id_index f' t = (Inr x, f')"
proof -
  obtain rk f1 where k: "mapId f t = (rk, f1)" by (cases "mapId f t")
  then obtain key where rk: "rk = Inr key"
    and e: "entry_id f1 (obj_get (table c f1) (show_str key)) = (Inr x, f)"
    using r d [of f] by (cases rk) simp_all
  have "bumps f f1" using k by (rule mapId_bumps)
  moreover have "index f \<le> index f1 \<and> index f1 \<le> index f"
    using bumps_fields(5) [OF mapId_bumps [OF k]] bumps_fields(5) [OF entry_id_bumps [OF e]]
    by simp
  ultimately have f1: "f1 = f" by (simp add: bumps_same)
  have hit: "truthy (obj_get (table c f) (show_str key))" "x = prop_id (obj_get (table c f) (show_str key))"
    using entry_id_same [OF e [unfolded f1]] by simp_all
  have same: "obj_get (table c f') (show_str key) = obj_get (table c f) (show_str key)"
    using g hit(1) by (simp add: grows_def)
  have "mapId f' t = (Inr key, f')" using m k rk f1 by simp
  then show ?thesis using d [of f'] same hit by (simp add: entry_id_hit)
qed

lemma grows_id_mapId:
  assumes g: "grows f f'"
  shows "(\<forall>x. id_index f t = (Inr x, f) \<longrightarrow> id_index f' t = (Inr x, f'))
       \<and> (\<forall>k. mapId f t = (Inr k, f) \<longrightarrow> mapId f' t = (Inr k, f'))"
proof (induction t)
  case (Quad a i s p ob gr)
  have m: "mapId f' (Quad a i s p ob gr) = (Inr k, f')"
    if k: "mapId f (Quad a i s p ob gr) = (Inr k, f)" for k
  proof -
    obtain r1 f1 where 1: "id_index f s = (r1, f1)" by (cases "id_index f s")
    obtain r2 f2 where 2: "id_index f1 p = (r2, f2)" by (cases "id_index f1 p")
    obtain r3 f3 where 3: "id_index f2 ob = (r3, f3)" by (cases "id_index f2 ob")
    obtain r4 f4 where 4: "(if truthy gr then id_index f3 gr else (Inr (Some 0), f3)) = (r4, f4)"
      by (cases "if truthy gr then id_index f3 gr else (Inr (Some 0), f3)")
    obtain x1 x2 x3 x4 where x: "r1 = Inr x1" "r2 = Inr x2" "r3 = Inr x3" "r4 = Inr x4"
      and f4: "f4 = f"
      and key: "k = Some (show_id x1 @ '','' @ show_id x2 @ '','' @ show_id x3 @ '','' @ show_id x4)"
      using k 1 2 3 4 by (cases r1; cases r2; cases r3; cases r4) simp_all
    have b1: "bumps f f1" using 1 by (rule id_index_bumps)
    have b2: "bumps f1 f2" using 2 by (rule id_index_bumps)
    have b3: "bumps f2 f3" using 3 by (rule id_index_bumps)
    have b4: "bumps f3 f4" using 4 id_index_bumps [of f3 gr r4 f4] by (cases "truthy gr") auto
    have le: "index f \<le> index f1" "index f1 \<le> index f2" "index f2 \<le> index f3" "index f3 \<le> index f4"
      using bumps_fields(5) [OF b1] bumps_fields(5) [OF b2] bumps_fields(5) [OF b3]
        bumps_fields(5) [OF b4] by simp_all
    have e1: "f1 = f" using b1 le f4 by (simp add: bumps_same)
    have e2: "f2 = f" using b2 le f4 e1 by (simp add: bumps_same)
    have e3: "f3 = f" using b3 le f4 e2 by (simp add: bumps_same)
    have i1: "id_index f' s = (Inr x1, f')" using Quad.IH(1) 1 x e1 by simp
    have i2: "id_index f' p = (Inr x2, f')" using Quad.IH(2) 2 x e1 e2 by simp
    have i3: "id_index f' ob = (Inr x3, f')" using Quad.IH(3) 3 x e2 e3 by simp
    have i4: "(if truthy gr then id_index f' gr else (Inr (Some 0), f')) = (Inr x4, f')"
      using Quad.IH(4) 4 x e3 f4 by (cases "truthy gr") auto
    show ?thesis using i1 i2 i3 i4 key by simp
  qed
  have "id_index f' (Quad a i s p ob gr) = (Inr x, f')"
    if r: "id_index f (Quad a i s p ob gr) = (Inr x, f)" for x
  proof (cases "assigned i")
    case (Some n)
    from r have "x = Some n" by (simp add: Some)
    then show ?thesis by (simp add: Some)
  next
    case None
    show ?thesis
      by (rule id_via_table [where c = KQuad, OF _ g m r])
         (simp_all add: None del: mapId.simps split: prod.splits sum.splits)
  qed
  with m show ?case by blast
next
  case (BlankNode a i v)
  have "id_index f' (BlankNode a i v) = (Inr x, f')"
    if r: "id_index f (BlankNode a i v) = (Inr x, f)" for x
  proof (cases "assigned i")
    case (Some n)
    from r have "x = Some n" by (simp add: Some)
    then show ?thesis by (simp add: Some)
  next
    case None
    show ?thesis
      by (rule id_via_table [where c = KBlank, OF _ g _ r])
         (simp_all add: None split: prod.splits sum.splits)
  qed
  then show ?case by simp
next
  case (NamedNode a i v)
  have "id_index f' (NamedNode a i v) = (Inr x, f')"
    if r: "id_index f (NamedNode a i v) = (Inr x, f)" for x
  proof (cases "assigned i")
    case (Some n)
    from r have "x = Some n" by (simp add: Some)
    then show ?thesis by (simp add: Some)
  next
    case None
    show ?thesis
      by (rule id_via_table [where c = KNamed, OF _ g _ r])
         (simp_all add: None split: prod.splits sum.splits)
  qed
  then show ?case by simp
next
  case (Literal a i v l d)
  have "id_index f' (Literal a i v l d) = (Inr x, f')"
    if r: "id_index f (Literal a i v l d) = (Inr x, f)" for x
  proof (cases "assigned i")
    case (Some n)
    from r have "x = Some n" by (simp add: Some)
    then show ?thesis by (simp add: Some)
  next
    case None
    show ?thesis
      by (rule id_via_table [where c = KLiteral, OF _ g _ r])
         (simp_all add: None split: if_splits prod.splits sum.splits)
  qed
  then show ?case by (simp split: if_splits)
next
  case (Other a i v)
  show ?case by (cases "assigned i") simp_all
qed simp_all

lemma id_index_grows:
  "grows f f' \<Longrightarrow> id_index f t = (Inr x, f) \<Longrightarrow> id_index f' t = (Inr x, f')"
  using grows_id_mapId by blast

lemma known_grows: "grows f f' \<Longrightarrow> known f t \<Longrightarrow> known f' t"
  unfolding known_iff using id_index_grows by blast

lemma obj_get_truthy_Some:
  "truthy (obj_get mm k) \<Longrightarrow> k \<notin> set Object_prototype \<Longrightarrow> mm k = Some (obj_get mm k)"
  by (cases "mm k") (simp_all add: obj_get_def)



section \<open>From identity back to the term; fresh identities\<close>

lemma store_index_fromId:
  assumes wf: "wf_index f" and mk: "\<And>a n. truthy (mk a n) \<and> prop_id (mk a n) = Some n"
    and st: "store_index c f k mk = (Inr t, f')"
  shows "(t = Builtin k \<and> k \<in> set Object_prototype) \<or> (\<exists>j. prop_id t = Some j \<and> fromId_index f' j = t)"
proof (cases "table c f k")
  case (Some u)
  then obtain n where n: "prop_id u = Some n" "memoizationMap f n = Some u" "truthy u"
    using wf_index_entry [OF wf] by blast
  have "obj_get (table c f) k = u" using Some by (simp add: obj_get_def)
  then have "t = u" "f' = f" using st n(3) by (simp_all add: store_index_def)
  then show ?thesis using n by (simp add: fromId_index_def memo_get_def)
next
  case None
  show ?thesis
  proof (cases "k \<in> set Object_prototype")
    case True
    then have "obj_get (table c f) k = Builtin k" using None by (simp add: obj_get_def)
    then show ?thesis using st True by (simp add: store_index_def)
  next
    case False
    then have "obj_get (table c f) k = Undefined" using None by (simp add: obj_get_def)
    then show ?thesis using st mk [of "nextAddr f" "index f"]
      by (auto simp: store_index_def fromId_index_def)
  qed
qed

lemma namedNode_index_fromId:
  assumes "wf_index h" "namedNode_index h v = (Inr t, h')"
  shows "(\<exists>k. t = Builtin k \<and> k \<in> set Object_prototype)
         \<or> (\<exists>j. prop_id t = Some j \<and> fromId_index h' j = t)"
proof (cases v)
  case (JStr s)
  show ?thesis
    using store_index_fromId [OF assms(1) _ assms(2) [unfolded JStr namedNode_index_store]]
    by auto
qed (use assms(2) in \<open>simp_all add: namedNode_index_def\<close>)

lemma blankNode_index_fromId:
  assumes "wf_index h" "blankNode_index h v = (Inr t, h')"
  shows "(\<exists>k. t = Builtin k \<and> k \<in> set Object_prototype)
         \<or> (\<exists>j. prop_id t = Some j \<and> fromId_index h' j = t)"
proof -
  consider "truthy_js v" "\<not> is_string v" | s where "v = JStr s" "s \<noteq> []" | "\<not> truthy_js v"
    by (cases v) auto
  then show ?thesis
  proof cases
    case 1
    then show ?thesis using assms(2) by (simp add: blankNode_index_throws)
  next
    case 2
    show ?thesis
      using store_index_fromId [OF assms(1) _ assms(2) [unfolded 2(1) blankNode_index_store [OF 2(2)]]]
      by auto
  next
    case 3
    have b: "wf_index (h\<lparr>bnIndex := bnIndex h + 1\<rparr>)"
      using assms(1) by (simp add: wf_index_bnIndex)
    show ?thesis
      using store_index_fromId [OF b _ assms(2) [unfolded blankNode_index_fresh [OF 3]]]
      by auto
  qed
qed

lemma store_index_comma_fromId:
  assumes "wf_index f" "\<And>a n. truthy (mk a n) \<and> prop_id (mk a n) = Some n"
    "store_index c f k mk = (Inr t, f')" "CHR '','' \<in> set k"
  shows "\<exists>j. prop_id t = Some j \<and> fromId_index f' j = t"
  using store_index_fromId [OF assms(1-3)] comma_not_proto [OF assms(4)] by blast

lemma literal_index_fromId:
  assumes "wf_index h" "literal_index h v lod = (Inr t, h')"
  shows "\<exists>j. prop_id t = Some j \<and> fromId_index h' j = t"
proof (cases "\<exists>d. lod = Datatype d \<and> truthy d")
  case True
  then obtain d where lod: "lod = Datatype d" and d: "truthy d" by blast
  show ?thesis
    by (rule store_index_comma_fromId
          [OF assms(1) _ assms(2) [unfolded lod literal_index_given [OF d]]]) simp_all
next
  case False
  then have no: "\<forall>d. lod = Datatype d \<longrightarrow> \<not> truthy d" by blast
  obtain d f1 where nn: "namedNode_index h (JStr (datatype_of lod)) = (Inr d, f1)"
    using namedNode_index_Inr by blast
  have wf1: "wf_index f1"
    using namedNode_index_wf [OF assms(1), of "JStr (datatype_of lod)"] nn by simp
  show ?thesis
    by (rule store_index_comma_fromId
          [OF wf1 _ assms(2) [unfolded literal_index_store [OF no nn]]]) simp_all
qed

lemma quadMapId_comma: "quadMapId f s p ob g = (Inr k, f') \<Longrightarrow> CHR '','' \<in> set k"
  using quadMapId_Inr [of f s p ob g k f'] by auto

lemma quad_index_fromId:
  assumes "wf_index h" "quad_index h s p ob g = (Inr t, h')"
  shows "\<exists>j. prop_id t = Some j \<and> fromId_index h' j = t"
proof -
  obtain ug f0 where r: "(if truthy g then (Inr g, h) else defaultGraph_index h) = (Inr ug, f0)"
    and wf0: "wf_index f0"
  proof (cases "truthy g")
    case True
    then show ?thesis using that [of g h] assms(1) by simp
  next
    case False
    obtain d f1 where nn: "namedNode_index h (JStr ''rdf:defaultGraph'') = (Inr d, f1)"
      using namedNode_index_Inr by blast
    have "wf_index f1"
      using namedNode_index_wf [OF assms(1), of "JStr ''rdf:defaultGraph''"] nn by simp
    then show ?thesis using that [of d f1] False nn by (simp add: defaultGraph_index_def)
  qed
  obtain rk f1 where k: "quadMapId f0 s p ob g = (rk, f1)" by (cases "quadMapId f0 s p ob g")
  have wf1: "wf_index f1" using wf0 quadMapId_bumps [OF k] by (rule wf_index_bumps)
  show ?thesis
  proof (cases rk)
    case (Inl e)
    then show ?thesis using r k assms(2) by (simp add: quad_index_def)
  next
    case (Inr key)
    have "quad_index h s p ob g = store_index KQuad f1 key (\<lambda>a n. Quad (Some a) (Some n) s p ob ug)"
      using r k Inr by (simp add: quad_index_def store_index_def Let_def)
    then have st: "store_index KQuad f1 key (\<lambda>a n. Quad (Some a) (Some n) s p ob ug) = (Inr t, h')"
      using assms(2) by simp
    show ?thesis
      by (rule store_index_comma_fromId [OF wf1 _ st])
         (use quadMapId_comma k Inr in simp_all)
  qed
qed

lemma id_index_fresh:
  assumes wf: "wf_index h" and t: "t = NamedNode a None v \<and> c = KNamed \<and> k = v
       \<or> t = BlankNode a None v \<and> c = KBlank \<and> k = v
       \<or> t = Literal a None v l d \<and> truthy d \<and> c = KLiteral
          \<and> k = v @ '','' @ l @ '','' @ show_str (prop_value d)"
    and miss: "table c h k = None" "k \<notin> set Object_prototype"
  shows "id_index h t = (Inr (Some (index h)), h\<lparr>index := index h + 1\<rparr>)
       \<and> fromId_index (h\<lparr>index := index h + 1\<rparr>) (index h) = Undefined
       \<and> id_index (h\<lparr>index := index h + 1\<rparr>) t = (Inr (Some (index h + 1)), h\<lparr>index := index h + 2\<rparr>)"
proof -
  have u: "obj_get (table c h) k = Undefined" using miss by (simp add: obj_get_def)
  have "memoizationMap h (index h) = None"
    using wf unfolding wf_index_def by (metis less_irrefl option.exhaust)
  then have "fromId_index (h\<lparr>index := index h + 1\<rparr>) (index h) = Undefined"
    by (simp add: fromId_index_def memo_get_def)
  moreover have "id_index g t = (Inr (Some (index g)), g\<lparr>index := index g + 1\<rparr>)"
    if "table c g = table c h" for g
    using t u that by (cases d) (auto simp: entry_id_def)
  ultimately show ?thesis by simp
qed

lemma id_hash_quad_swap:
  "id_hash m f (Quad None None a p b g) = Inr i \<Longrightarrow> id_hash m f (Quad None None b p a g) = Inr i"
  by (auto split: sum.splits if_splits simp: ac_simps)

lemma quad_hash_swapped:
  assumes wf: "wf_hash m f" and ty: "\<not> fails_hash (Quad None None a p b g)"
  shows "\<exists>q f1. quad_hash m f a p b g = (Inr q, f1) \<and> quad_hash m f1 b p a g = (Inr q, f1)"
proof -
  obtain q where q: "fst (quad_hash m f a p b g) = Inr q"
    using quad_hash_Inr [OF wf ty] by blast
  let ?f1 = "snd (quad_hash m f a p b g)"
  have first: "quad_hash m f a p b g = (Inr q, ?f1)" using q by (metis prod.collapse)
  have "quad_hash m ?f1 b p a g = quad_hash m f a p b g"
  proof (cases "truthy g")
    case True
    let ?mk = "\<lambda>i x. Quad (Some x) (Some i) a p b g"
    obtain i where i: "id_hash m f (Quad None None a p b g) = Inr i"
      using id_hash_total [OF ty] by blast
    have i': "id_hash m f (Quad None None b p a g) = Inr i"
      using i by (rule id_hash_quad_swap)
    show ?thesis
      unfolding quad_hash_given [OF True] id_hash_store_or i i'
      by (rule store_or_again) simp
  next
    case False
    obtain d f0 where nn: "namedNode_hash m f (JStr ''rdf:defaultGraph'') = (Inr d, f0)"
      using namedNode_hash_Inr by blast
    have sb: "seedBase f0 = seedBase f"
      using namedNode_hash_Inr [of m f "''rdf:defaultGraph''"] nn by auto
    let ?mk = "\<lambda>i x. Quad (Some x) (Some i) a p b d"
    let ?mk' = "\<lambda>i x. Quad (Some x) (Some i) b p a d"
    let ?r = "id_hash m f (Quad None None a p b d)"
    have fst1: "quad_hash m f a p b g = store_or f0 ?r ?mk"
      by (rule quad_hash_store [OF False nn])
    then obtain i where i: "?r = Inr i" using q by (cases ?r) simp_all
    have i': "id_hash m f (Quad None None b p a d) = Inr i"
      using i by (rule id_hash_quad_swap)
    let ?f2 = "snd (store_or f0 ?r ?mk)"
    have same: "id_hash m ?f2 t = id_hash m f t" for t
      by (rule id_hash_seed) (simp add: sb)
    have "quad_hash m ?f2 b p a g = store_or ?f2 (Inr i) ?mk'"
      using quad_hash_store [OF False namedNode_after_store [OF nn, of ?r ?mk], of b p a]
      by (simp only: same i')
    also have "\<dots> = store_or f0 ?r ?mk"
      unfolding i by (rule store_or_again) simp
    finally show ?thesis by (simp only: fst1)
  qed
  with first show ?thesis by (metis snd_conv)
qed

text \<open>
  In the counting factory, on a well-formed store, what an operation stores or finds under
  a key that names no property of \<open>Object.prototype\<close> is an instance the factory allocated,
  of the kind of the table, and \<open>fromId\<close> of its \<open>id\<close> returns it.
\<close>

lemma store_index_stored:
  assumes wf: "wf_index f"
    and mk: "\<And>a n. truthy (mk a n) \<and> prop_id (mk a n) = Some n \<and> address (mk a n) = Some a"
    and ko: "\<And>a n. kind_ok c k (mk a n)"
    and st: "store_index c f k mk = (Inr t, f')"
    and np: "k \<notin> set Object_prototype"
  shows "\<exists>j a. prop_id t = Some j \<and> fromId_index f' j = t \<and> address t = Some a
           \<and> a < nextAddr f' \<and> table c f' k = Some t \<and> kind_ok c k t \<and> j \<noteq> 0"
proof -
  have wf': "wf_index f'" using store_index_wf [OF wf mk ko] st by simp
  have "truthy t" "obj_get (table c f') k = t"
    using store_index_result [of mk f c k] mk st by auto
  then have t: "table c f' k = Some t" using obj_get_truthy_Some [of "table c f'" k] np by simp
  from wf_index_entry [OF wf' t] wf_index_kind [OF wf' t] t
  show ?thesis by (auto simp: fromId_index_def memo_get_def)
qed




section \<open>Literals\<close>

lemma comma_split:
  assumes "CHR '','' \<notin> set a" "CHR '','' \<notin> set a'" "a @ CHR '','' # r = a' @ CHR '','' # r'"
  shows "a = a' \<and> r = r'"
proof -
  have tw: "takeWhile (\<lambda>x. x \<noteq> CHR '','') (b @ CHR '','' # s) = b" if "CHR '','' \<notin> set b" for b s
    using that by (induction b) auto
  have dw: "dropWhile (\<lambda>x. x \<noteq> CHR '','') (b @ CHR '','' # s) = CHR '','' # s"
    if "CHR '','' \<notin> set b" for b s
    using that by (induction b) auto
  have "takeWhile (\<lambda>x. x \<noteq> CHR '','') (a @ CHR '','' # r)
        = takeWhile (\<lambda>x. x \<noteq> CHR '','') (a' @ CHR '','' # r')"
    using assms(3) by (rule arg_cong)
  then have 1: "a = a'" by (simp only: tw [OF assms(1)] tw [OF assms(2)])
  have "dropWhile (\<lambda>x. x \<noteq> CHR '','') (a @ CHR '','' # r)
        = dropWhile (\<lambda>x. x \<noteq> CHR '','') (a' @ CHR '','' # r')"
    using assms(3) by (rule arg_cong)
  then have "CHR '','' # r = CHR '','' # r'" by (simp only: dw [OF assms(1)] dw [OF assms(2)])
  with 1 show ?thesis by simp
qed

lemma literal_key_split:
  assumes "CHR '','' \<notin> set v" "CHR '','' \<notin> set l" "CHR '','' \<notin> set v'" "CHR '','' \<notin> set l'"
    and "v' @ '','' @ l' @ '','' @ x' = v @ '','' @ l @ '','' @ x"
  shows "v' = v \<and> l' = l \<and> x' = x"
proof -
  have 1: "v' = v \<and> l' @ '','' @ x' = l @ '','' @ x"
    using comma_split [OF assms(3,1), of "l' @ '','' @ x'" "l @ '','' @ x"] assms(5) by simp
  then have "l' = l \<and> x' = x"
    using comma_split [OF assms(4,2), of x' x] by simp
  with 1 show ?thesis by simp
qed

text \<open>
  \<open>literal\<close> of the counting factory, second argument omitted or a string: the call
  returns the literal that the table holds under the content key afterwards; it builds
  that literal from its arguments when the table had none.
\<close>

lemma literal_index_defaults:
  assumes wf: "wf_index h" and lod: "lod = Omitted \<or> lod = Language l"
  shows "\<exists>a n v' l' d' h'.
           literal_index h v lod = (Inr (Literal (Some a) (Some n) v' l' d'), h')
         \<and> literalMap h' (v @ '','' @ language_of lod @ '','' @ datatype_of lod)
             = Some (Literal (Some a) (Some n) v' l' d')
         \<and> truthy d'
         \<and> v' @ '','' @ l' @ '','' @ show_str (prop_value d')
             = v @ '','' @ language_of lod @ '','' @ datatype_of lod
         \<and> (literalMap h (v @ '','' @ language_of lod @ '','' @ datatype_of lod) = None \<longrightarrow>
              v' = v \<and> l' = language_of lod
              \<and> (\<exists>b j. d' = NamedNode (Some b) (Some j) (datatype_of lod)))
         \<and> (\<forall>t. literalMap h (v @ '','' @ language_of lod @ '','' @ datatype_of lod) = Some t \<longrightarrow>
              Literal (Some a) (Some n) v' l' d' = t)
         \<and> (CHR '','' \<notin> set v \<and> CHR '','' \<notin> set (language_of lod)
              \<and> CHR '','' \<notin> set v' \<and> CHR '','' \<notin> set l' \<longrightarrow>
              v' = v \<and> l' = language_of lod \<and> show_str (prop_value d') = datatype_of lod)"
proof -
  let ?k = "v @ '','' @ language_of lod @ '','' @ datatype_of lod"
  have no: "\<forall>d. lod = Datatype d \<longrightarrow> \<not> truthy d" using lod by auto
  obtain b j h1 where nn: "namedNode_index h (JStr (datatype_of lod))
       = (Inr (NamedNode (Some b) (Some j) (datatype_of lod)), h1)"
    and lm: "literalMap h1 = literalMap h" and wf1: "wf_index h1"
    using namedNode_index_node [OF wf datatype_not_proto] by blast
  let ?d = "NamedNode (Some b) (Some j) (datatype_of lod)"
  let ?mk = "\<lambda>a n. Literal (Some a) (Some n) v (language_of lod) ?d"
  have np: "?k \<notin> set Object_prototype" by (rule comma_not_proto) simp
  have form: "literal_index h v lod = store_index KLiteral h1 ?k ?mk"
    using literal_index_store [OF no nn, of v] by simp
  obtain t h' where r: "store_index KLiteral h1 ?k ?mk = (Inr t, h')"
    using store_index_Inr [of KLiteral h1 ?k ?mk] by (metis prod.collapse)
  have st: "table KLiteral h' ?k = Some t" and "kind_ok KLiteral ?k t"
    using store_index_stored [OF wf1 _ _ r np] by auto
  then obtain a n v' l' d' where t: "t = Literal (Some a) (Some n) v' l' d'" "truthy d'"
    "?k = v' @ '','' @ l' @ '','' @ show_str (prop_value d')"
    using kind_ok_cases(3) by blast
  have miss: "v' = v \<and> l' = language_of lod \<and> d' = ?d" if "literalMap h ?k = None"
  proof -
    have "obj_get (table KLiteral h1) ?k = Undefined"
      using that lm np by (simp add: obj_get_def)
    then show ?thesis using r t(1) by (simp add: store_index_def)
  qed
  have hit: "t = u" if "literalMap h ?k = Some u" for u
  proof -
    have "table KLiteral h1 ?k = Some u" using that lm by simp
    then have "obj_get (table KLiteral h1) ?k = u" "truthy u"
      using wf_index_entry [OF wf1, of KLiteral ?k u] by (auto simp: obj_get_def)
    then show ?thesis using r by (simp add: store_index_def)
  qed
  show ?thesis
  proof (intro exI conjI impI allI)
    show "literal_index h v lod = (Inr (Literal (Some a) (Some n) v' l' d'), h')"
      using form r t(1) by simp
    show "literalMap h' ?k = Some (Literal (Some a) (Some n) v' l' d')"
      using st unfolding t(1) by simp
    show "truthy d'" by (rule t(2))
    show "v' @ '','' @ l' @ '','' @ show_str (prop_value d') = ?k"
      using t(3) by simp
    show "v' = v" "l' = language_of lod" "d' = NamedNode (Some b) (Some j) (datatype_of lod)"
      if "literalMap h ?k = None"
      using miss [OF that] by simp_all
    show "Literal (Some a) (Some n) v' l' d' = u" if "literalMap h ?k = Some u" for u
      using hit [OF that] t(1) by simp
    show "v' = v" "l' = language_of lod" "show_str (prop_value d') = datatype_of lod"
      if "CHR '','' \<notin> set v \<and> CHR '','' \<notin> set (language_of lod)
              \<and> CHR '','' \<notin> set v' \<and> CHR '','' \<notin> set l'"
      using literal_key_split [of v "language_of lod" v' l' "show_str (prop_value d')" "datatype_of lod"]
        that t(3) by simp_all
  qed
qed

text \<open>
  \<open>literal\<close> of the hashing factory: a call that finds a term under the identity of the
  literal returns that term, whatever it is.
\<close>

lemma literal_hash_id:
  assumes wf: "wf_hash m f" and lod: "lod = Omitted \<or> lod = Language l"
    and nn: "namedNode_hash m f (JStr (datatype_of lod)) = (Inr d, f1)"
  shows "literal_hash m f v lod =
     store_hash f1
       (m v (seedBase f + 4 +
              (if language_of lod \<noteq> [] then m (language_of lod) (seedBase f)
               else m (datatype_of lod) (seedBase f + 2))))
       (\<lambda>a. Literal (Some a)
          (Some (m v (seedBase f + 4 +
              (if language_of lod \<noteq> [] then m (language_of lod) (seedBase f)
               else m (datatype_of lod) (seedBase f + 2))))) v (language_of lod) d)"
proof -
  have no: "\<forall>d. lod = Datatype d \<longrightarrow> \<not> truthy d" using lod by auto
  have "id_hash m f d = Inr (m (datatype_of lod) (seedBase f + 2))"
    using namedNode_hash_id [OF wf nn] by simp
  then have "id_hash m f (Literal None None v (language_of lod) d) =
     Inr (m v (seedBase f + 4 +
              (if language_of lod \<noteq> [] then m (language_of lod) (seedBase f)
               else m (datatype_of lod) (seedBase f + 2))))"
    by simp
  then show ?thesis unfolding literal_hash_store [OF no nn] by simp
qed

lemma literal_hash_hit:
  assumes wf: "wf_hash m f" and lod: "lod = Omitted \<or> lod = Language l"
    and i: "i = m v (seedBase f + 4 +
              (if language_of lod \<noteq> [] then m (language_of lod) (seedBase f)
               else m (datatype_of lod) (seedBase f + 2)))"
    and hit: "truthy (memo_get (memoizationMap f) i)"
  shows "fst (literal_hash m f v lod) = Inr (memo_get (memoizationMap f) i)"
proof -
  obtain d f1 where nn: "namedNode_hash m f (JStr (datatype_of lod)) = (Inr d, f1)"
    using namedNode_hash_Inr by blast
  have "snd (store_hash f (m (datatype_of lod) (seedBase f + 2))
              (\<lambda>a. NamedNode (Some a) (Some (m (datatype_of lod) (seedBase f + 2))) (datatype_of lod)))
        = f1"
    using nn by (simp add: namedNode_hash_store)
  then have keep: "memo_get (memoizationMap f1) i = memo_get (memoizationMap f) i"
    using store_hash_keeps [OF hit] by metis
  show ?thesis
    unfolding literal_hash_id [OF wf lod nn] i [symmetric]
    using hit keep by (simp add: store_hash_def)
qed

text \<open>
  When the store holds no other term under the identity of the datatype IRI and under the
  identity of the literal, the call returns the literal of its arguments.
\<close>

lemma literal_hash_defaults:
  assumes wf: "wf_hash m f" and lod: "lod = Omitted \<or> lod = Language l"
    and j: "j = m (datatype_of lod) (seedBase f + 2)"
    and i: "i = m v (seedBase f + 4 + (if language_of lod \<noteq> [] then m (language_of lod) (seedBase f) else j))"
    and dt: "\<not> truthy (memo_get (memoizationMap f) j)
             \<or> (\<exists>a. memo_get (memoizationMap f) j = NamedNode (Some a) (Some j) (datatype_of lod))"
    and li: "\<not> truthy (memo_get (memoizationMap f) i)
             \<or> (\<exists>a b. memo_get (memoizationMap f) i
                   = Literal (Some a) (Some i) v (language_of lod)
                       (NamedNode (Some b) (Some j) (datatype_of lod)))"
    and ij: "i \<noteq> j"
  shows "\<exists>a b f'. literal_hash m f v lod =
           (Inr (Literal (Some a) (Some i) v (language_of lod)
                   (NamedNode (Some b) (Some j) (datatype_of lod))), f')
         \<and> fromId_hash f' i = Literal (Some a) (Some i) v (language_of lod)
                   (NamedNode (Some b) (Some j) (datatype_of lod))"
proof -
  let ?X = "datatype_of lod"
  obtain b f1 where nn: "namedNode_hash m f (JStr ?X) = (Inr (NamedNode (Some b) (Some j) ?X), f1)"
    and keep: "memo_get (memoizationMap f1) i = memo_get (memoizationMap f) i"
  proof (cases "truthy (memo_get (memoizationMap f) j)")
    case True
    then obtain a where "memo_get (memoizationMap f) j = NamedNode (Some a) (Some j) ?X"
      using dt by blast
    then show ?thesis using that [of a f] by (simp add: namedNode_hash_store store_hash_def j)
  next
    case False
    then show ?thesis
      using that [of "nextAddr f"] ij by (simp add: namedNode_hash_store store_hash_def j)
  qed
  let ?d = "NamedNode (Some b) (Some j) ?X"
  have form: "literal_hash m f v lod =
      store_hash f1 i (\<lambda>a. Literal (Some a) (Some i) v (language_of lod) ?d)"
    unfolding literal_hash_id [OF wf lod nn] i j ..
  show ?thesis
  proof (cases "truthy (memo_get (memoizationMap f) i)")
    case True
    then obtain a b' where "memo_get (memoizationMap f) i
         = Literal (Some a) (Some i) v (language_of lod) (NamedNode (Some b') (Some j) ?X)"
      using li by blast
    then show ?thesis
      unfolding form using keep
      by (simp add: store_hash_def fromId_hash_def)
  next
    case False
    then show ?thesis
      unfolding form using keep
      by (simp add: store_hash_def fromId_hash_def)
  qed
qed

section \<open>The content key of a quad\<close>

lemma mapId_quad_key:
  "mapId f (Quad a i s p ob g) =
     (case quadMapId f s p ob g of
        (Inl e, f') \<Rightarrow> (Inl e, f')
      | (Inr k, f') \<Rightarrow> (Inr (Some k), f'))"
  by (simp add: quadMapId_def split: prod.splits sum.splits)



section \<open>Comparing tuples; the result of \<open>id\<close>\<close>







text \<open>Two descriptions that are not interned and carry no identity never compare equal.\<close>

lemma ids_match_index_fresh:
  assumes "id_index h a = (Inr (Some (index h)), h\<lparr>index := index h + 1\<rparr>)"
    "id_index (h\<lparr>index := index h + 1\<rparr>) b = (Inr (Some (index h + 1)), h\<lparr>index := index h + 2\<rparr>)"
  shows "ids_match_index h ((a, b) # ps) = (Inr False, h\<lparr>index := index h + 2\<rparr>)"
  using assms by (simp del: id_index.simps)


text \<open>
  On a well-formed store the counting \<open>id\<close> returns an integer when it does not throw,
  unless the object describes a node whose value names a property of \<open>Object.prototype\<close>.
\<close>

lemma entry_id_Some:
  assumes "wf_index f" "k \<notin> set Object_prototype"
  shows "\<exists>n f'. entry_id f (obj_get (table c f) k) = (Inr (Some n), f')"
proof (cases "table c f k")
  case None
  then show ?thesis using assms(2) by (simp add: obj_get_def entry_id_def)
next
  case (Some t)
  then obtain n where "prop_id t = Some n" "truthy t"
    using wf_index_entry [OF assms(1)] by blast
  then show ?thesis using Some by (simp add: obj_get_def entry_id_def)
qed

lemma id_index_integer:
  assumes wf: "wf_index h" and ty: "\<not> fails_index t" and np: "\<not> proto_named t"
  shows "\<exists>n h'. id_index h t = (Inr (Some n), h')"
proof (cases "assigned (prop_id t)")
  case (Some n)
  then have "identified t" by (simp add: identified_def)
  then show ?thesis using id_index_identified [of t h] by (auto simp: identified_iff)
next
  case None
  show ?thesis
  proof (cases t)
    case (Quad a i s p ob g)
    obtain x h' where r: "id_index h t = (Inr x, h')" using id_index_total [OF ty] by blast
    obtain rk h1 where k: "mapId h t = (rk, h1)" by (cases "mapId h t")
    then obtain ko where rk: "rk = Inr ko"
      using r None Quad by (cases rk) (simp_all del: mapId.simps)
    obtain key where key: "ko = Some key" "quadMapId h s p ob g = (Inr key, h1)"
      using k rk unfolding Quad mapId_quad_key by (auto split: prod.splits sum.splits)
    have "key \<notin> set Object_prototype"
      using quadMapId_comma [OF key(2)] by (rule comma_not_proto)
    then obtain n h2 where "entry_id h1 (obj_get (table KQuad h1) key) = (Inr (Some n), h2)"
      using entry_id_Some [OF mapId_wf [OF wf k]] by blast
    then show ?thesis using None Quad k rk key(1) by (simp del: mapId.simps)
  next
    case (BlankNode a i v)
    then have "v \<notin> set Object_prototype" using np by simp
    then obtain n h2 where "entry_id h (obj_get (table KBlank h) v) = (Inr (Some n), h2)"
      using entry_id_Some [OF wf] by blast
    then show ?thesis using None BlankNode by simp
  next
    case (NamedNode a i v)
    then have "v \<notin> set Object_prototype" using np by simp
    then obtain n h2 where "entry_id h (obj_get (table KNamed h) v) = (Inr (Some n), h2)"
      using entry_id_Some [OF wf] by blast
    then show ?thesis using None NamedNode by simp
  next
    case (Literal a i v l d)
    then have d: "d \<noteq> Undefined" "d \<noteq> Null" using ty None by auto
    have "v @ '','' @ l @ '','' @ show_str (prop_value d) \<notin> set Object_prototype"
      by (rule comma_not_proto) simp
    then obtain n h2 where "entry_id h (obj_get (table KLiteral h)
           (v @ '','' @ l @ '','' @ show_str (prop_value d))) = (Inr (Some n), h2)"
      using entry_id_Some [OF wf] by blast
    then show ?thesis using None Literal d by simp
  next
    case Null
    then show ?thesis using ty by simp
  qed (use None in simp_all)
qed

section \<open>The claims\<close>

text \<open>
  Claim C5. In the hashing factory the identity of a description is computed from its
  content: that of a NamedNode description is \<open>murmur3 value (seedBase + 2)\<close>, that of a
  BlankNode description is \<open>murmur3 value (seedBase + 1)\<close>, and two factories with the same
  \<open>seedBase\<close> give every description the same identity. With \<open>seedBase = 0\<close>, on any
  well-formed store, \<open>namedNode "http://ex.org/a"\<close> called twice returns the same instance
  both times: an object at an address the factory allocated, which carries the identity
  \<open>murmur3 "http://ex.org/a" 2\<close>, is what \<open>fromId\<close> returns for that identity, and for which
  \<open>id\<close> computes that identity. On the new factory the first call builds the named node at
  address \<open>0\<close> and stores it, and the second call returns it and leaves the store as it is.
\<close>

theorem hash_identity_content_derived:
  "id_hash m f (NamedNode a None v) = Inr (m v (seedBase f + 2))
   \<and> id_hash m f (BlankNode a None v) = Inr (m v (seedBase f + 1))
   \<and> (seedBase f' = seedBase f \<longrightarrow> id_hash m f' t = id_hash m f t)
   \<and> (wf_hash m f \<and> seedBase f = 0 \<longrightarrow>
        (\<exists>t a f1. namedNode_hash m f (JStr ''http://ex.org/a'') = (Inr t, f1)
           \<and> namedNode_hash m f1 (JStr ''http://ex.org/a'') = (Inr t, f1)
           \<and> address t = Some a \<and> a < nextAddr f1
           \<and> prop_id t = Some (m ''http://ex.org/a'' 2)
           \<and> fromId_hash f1 (m ''http://ex.org/a'' 2) = t
           \<and> id_hash m f1 t = Inr (m ''http://ex.org/a'' 2)))
   \<and> namedNode_hash m (new_hash 0) (JStr ''http://ex.org/a'')
       = (Inr (NamedNode (Some 0) (Some (m ''http://ex.org/a'' 2)) ''http://ex.org/a''),
          \<lparr>bnIndex = 0,
           memoizationMap = [m ''http://ex.org/a'' 2
              \<mapsto> NamedNode (Some 0) (Some (m ''http://ex.org/a'' 2)) ''http://ex.org/a''],
           nextAddr = 1, seedBase = 0\<rparr>)
   \<and> namedNode_hash m
        \<lparr>bnIndex = 0,
         memoizationMap = [m ''http://ex.org/a'' 2
            \<mapsto> NamedNode (Some 0) (Some (m ''http://ex.org/a'' 2)) ''http://ex.org/a''],
         nextAddr = 1, seedBase = 0\<rparr>
        (JStr ''http://ex.org/a'')
       = (Inr (NamedNode (Some 0) (Some (m ''http://ex.org/a'' 2)) ''http://ex.org/a''),
          \<lparr>bnIndex = 0,
           memoizationMap = [m ''http://ex.org/a'' 2
              \<mapsto> NamedNode (Some 0) (Some (m ''http://ex.org/a'' 2)) ''http://ex.org/a''],
           nextAddr = 1, seedBase = 0\<rparr>)"
proof (intro conjI impI)
  show "id_hash m f (NamedNode a None v) = Inr (m v (seedBase f + 2))" by simp
  show "id_hash m f (BlankNode a None v) = Inr (m v (seedBase f + 1))" by simp
  show "id_hash m f' t = id_hash m f t" if "seedBase f' = seedBase f"
    using that by (rule id_hash_seed)
next
  assume wf: "wf_hash m f \<and> seedBase f = 0"
  let ?s = "''http://ex.org/a''"
  obtain t f1 where nn: "namedNode_hash m f (JStr ?s) = (Inr t, f1)"
    and t: "truthy t" "seedBase f1 = seedBase f" "memo_get (memoizationMap f1) (m ?s (seedBase f + 2)) = t"
    using namedNode_hash_Inr [of m f ?s] by blast
  have again: "namedNode_hash m f1 (JStr ?s) = (Inr t, f1)"
    using namedNode_hash_again [of m f ?s] nn by simp
  have wf1: "wf_hash m f1"
    using namedNode_hash_wf [of m f "JStr ?s"] wf nn by simp
  have g: "prop_id t = Some (m ?s 2)" "id_hash m f1 t = Inr (m ?s 2)"
    "\<exists>a. address t = Some a \<and> a < nextAddr f1"
    using wf_hash_get [OF wf1, of "m ?s (seedBase f + 2)"] t wf by simp_all
  then obtain a where a: "address t = Some a" "a < nextAddr f1" by blast
  have "fromId_hash f1 (m ?s 2) = t" using t(3) wf by (simp add: fromId_hash_def)
  with nn again a g(1,2)
  show "\<exists>t a f1. namedNode_hash m f (JStr ?s) = (Inr t, f1)
           \<and> namedNode_hash m f1 (JStr ?s) = (Inr t, f1)
           \<and> address t = Some a \<and> a < nextAddr f1
           \<and> prop_id t = Some (m ?s 2)
           \<and> fromId_hash f1 (m ?s 2) = t
           \<and> id_hash m f1 t = Inr (m ?s 2)"
    by blast
qed (simp_all add: namedNode_hash_def new_hash_def memo_get_def Let_def)

theorem hash_identity_content_derived_witness:
  "wf_hash (\<lambda>s k. int (length s) + k) (new_hash 0) \<and> seedBase (new_hash 0) = 0
   \<and> seedBase (new_hash 0\<lparr>bnIndex := 7\<rparr>) = seedBase (new_hash 0)
   \<and> id_hash (\<lambda>s k. int (length s) + k) (new_hash 0\<lparr>bnIndex := 7\<rparr>) (Literal None None ''x'' ''en'' Undefined)
       = id_hash (\<lambda>s k. int (length s) + k) (new_hash 0) (Literal None None ''x'' ''en'' Undefined)
   \<and> (\<exists>t a f1. namedNode_hash (\<lambda>s k. int (length s) + k) (new_hash 0) (JStr ''http://ex.org/a'') = (Inr t, f1)
         \<and> namedNode_hash (\<lambda>s k. int (length s) + k) f1 (JStr ''http://ex.org/a'') = (Inr t, f1)
         \<and> address t = Some a \<and> a < nextAddr f1
         \<and> prop_id t = Some 17
         \<and> fromId_hash f1 17 = t
         \<and> id_hash (\<lambda>s k. int (length s) + k) f1 t = Inr 17)"
proof -
  let ?m = "\<lambda>s k. int (length s) + k"
  note th = hash_identity_content_derived
          [of ?m "new_hash 0" None "''http://ex.org/a''"
              "new_hash 0\<lparr>bnIndex := 7\<rparr>" "Literal None None ''x'' ''en'' Undefined"]
  have w: "wf_hash ?m (new_hash 0)" by (rule wf_hash_new)
  have s: "seedBase (new_hash 0) = 0" "seedBase (new_hash 0\<lparr>bnIndex := 7\<rparr>) = seedBase (new_hash 0)"
    by (simp_all add: new_hash_def)
  have d: "id_hash ?m (new_hash 0\<lparr>bnIndex := 7\<rparr>) (Literal None None ''x'' ''en'' Undefined)
       = id_hash ?m (new_hash 0) (Literal None None ''x'' ''en'' Undefined)"
    using th s(2) by blast
  have "\<exists>t a f1. namedNode_hash ?m (new_hash 0) (JStr ''http://ex.org/a'') = (Inr t, f1)
         \<and> namedNode_hash ?m f1 (JStr ''http://ex.org/a'') = (Inr t, f1)
         \<and> address t = Some a \<and> a < nextAddr f1
         \<and> prop_id t = Some (?m ''http://ex.org/a'' 2)
         \<and> fromId_hash f1 (?m ''http://ex.org/a'' 2) = t
         \<and> id_hash ?m f1 t = Inr (?m ''http://ex.org/a'' 2)"
    using th w s(1) by blast
  then have e: "\<exists>t a f1. namedNode_hash ?m (new_hash 0) (JStr ''http://ex.org/a'') = (Inr t, f1)
         \<and> namedNode_hash ?m f1 (JStr ''http://ex.org/a'') = (Inr t, f1)
         \<and> address t = Some a \<and> a < nextAddr f1
         \<and> prop_id t = Some 17
         \<and> fromId_hash f1 17 = t
         \<and> id_hash ?m f1 t = Inr 17"
    by simp
  show ?thesis by (intro conjI w s d e)
qed

text \<open>
  Claim C2. The claim has the identity of a quad be the hash of the four component
  identities written one after the other. The source adds the four identities as numbers
  and hashes the decimal string of the sum, in \<open>id\<close> and in \<open>quad\<close> alike: for components
  with the identities 1, 2, 3 and 4 the hashed string is \<open>10\<close>, not \<open>1234\<close>. (A component
  on which \<open>id\<close> throws makes \<open>id\<close> of the quad throw.)
\<close>

theorem quad_hash_adds_identities:
  "id_hash m f (Quad a None s p ob g) =
     (case (id_hash m f s, id_hash m f p, id_hash m f ob,
            if truthy g then id_hash m f g else Inr 0) of
        (Inr x1, Inr x2, Inr x3, Inr x4) \<Rightarrow>
          Inr (m (toString (x1 + x2 + x3 + x4)) (seedBase f + 3))
      | _ \<Rightarrow> Inl TypeError)
   \<and> id_hash m f (Quad a None (NamedNode None (Some 1) ''s'') (NamedNode None (Some 2) ''p'')
                   (NamedNode None (Some 3) ''o'') (NamedNode None (Some 4) ''g''))
       = Inr (m ''10'' (seedBase f + 3))
   \<and> fst (quad_hash m (new_hash seed) (NamedNode None (Some 1) ''s'') (NamedNode None (Some 2) ''p'')
                   (NamedNode None (Some 3) ''o'') (NamedNode None (Some 4) ''g''))
       = Inr (Quad (Some 0) (Some (m ''10'' (seed + 3))) (NamedNode None (Some 1) ''s'')
               (NamedNode None (Some 2) ''p'') (NamedNode None (Some 3) ''o'')
               (NamedNode None (Some 4) ''g''))
   \<and> ''10'' \<noteq> toString 1 @ toString 2 @ toString 3 @ toString 4"
proof (intro conjI)
  show "id_hash m f (Quad a None s p ob g) =
     (case (id_hash m f s, id_hash m f p, id_hash m f ob,
            if truthy g then id_hash m f g else Inr 0) of
        (Inr x1, Inr x2, Inr x3, Inr x4) \<Rightarrow>
          Inr (m (toString (x1 + x2 + x3 + x4)) (seedBase f + 3))
      | _ \<Rightarrow> Inl TypeError)"
    by (auto split: sum.splits dest: id_hash_TypeError)
qed (simp_all add: toString_def digits.simps digit_def quad_hash_def new_hash_def memo_get_def Let_def)






text \<open>
  Claim C4, as stated, fails for the empty language: the source takes the datatype from
  the type of the second argument, so \<open>literal "x" ""\<close> has the language \<open>""\<close> and the
  datatype \<open>rdf:langString\<close>, not \<open>xsd:string\<close>. In the counting factory it also fails
  where two literals share a content key, which joins value, language and datatype IRI by
  commas: after \<open>literal "a,b" ""\<close>, the call \<open>literal "a" "b,"\<close> returns the literal with
  the value \<open>a,b\<close> and the language \<open>""\<close>.
\<close>

theorem literal_defaults_counterexample:
  "fst (literal_index new_index ''x'' (Language []))
     = Inr (Literal (Some 1) (Some 2) ''x'' [] (NamedNode (Some 0) (Some 1) datatypes_langString))
   \<and> datatypes_langString \<noteq> datatypes_string
   \<and> fst (literal_index (snd (literal_index new_index ''a,b'' (Language []))) ''a'' (Language ''b,''))
     = Inr (Literal (Some 1) (Some 2) ''a,b'' [] (NamedNode (Some 0) (Some 1) datatypes_langString))"
  by (simp add: literal_index_def namedNode_index_def new_index_def obj_get_def
        Object_prototype_def datatypes_langString_def datatypes_string_def Let_def)

text \<open>
  Claim C4, amended. With the second argument omitted the language is \<open>""\<close> and the
  datatype IRI is \<open>xsd:string\<close>; with a string as second argument, the empty string
  included, the language is that string and the datatype IRI is \<open>rdf:langString\<close>. On a
  well-formed store \<open>literal\<close> with a string value returns
  \<^item> in the counting factory the literal that the table of literals holds afterwards
    under the content key of value, language and datatype IRI: a literal with this content
    key, which is the one the table held before, if any, and otherwise a new literal with
    the given value, that language and a named node of that datatype IRI; when neither
    the arguments nor the value and language of the literal returned contain a comma, the
    literal returned has the given value, that language and that datatype IRI;
  \<^item> in the hashing factory the term that the table of identities holds under the identity
    of the literal, if any; when the store holds no other term under that identity and
    under the identity of the datatype IRI, and the two identities differ, the literal
    with the given value, that language and a named node of that datatype IRI, which
    \<open>fromId\<close> returns afterwards.
\<close>

theorem literal_defaults:
  "(wf_index h \<and> (lod = Omitted \<or> lod = Language l) \<longrightarrow>
      (\<exists>a n v' l' d' h'.
           literal_index h v lod = (Inr (Literal (Some a) (Some n) v' l' d'), h')
         \<and> literalMap h' (v @ '','' @ language_of lod @ '','' @ datatype_of lod)
             = Some (Literal (Some a) (Some n) v' l' d')
         \<and> truthy d'
         \<and> v' @ '','' @ l' @ '','' @ show_str (prop_value d')
             = v @ '','' @ language_of lod @ '','' @ datatype_of lod
         \<and> (literalMap h (v @ '','' @ language_of lod @ '','' @ datatype_of lod) = None \<longrightarrow>
              v' = v \<and> l' = language_of lod
              \<and> (\<exists>b j. d' = NamedNode (Some b) (Some j) (datatype_of lod)))
         \<and> (\<forall>t. literalMap h (v @ '','' @ language_of lod @ '','' @ datatype_of lod) = Some t \<longrightarrow>
              Literal (Some a) (Some n) v' l' d' = t)
         \<and> (CHR '','' \<notin> set v \<and> CHR '','' \<notin> set (language_of lod)
              \<and> CHR '','' \<notin> set v' \<and> CHR '','' \<notin> set l' \<longrightarrow>
              v' = v \<and> l' = language_of lod \<and> show_str (prop_value d') = datatype_of lod)))
   \<and> (wf_hash m f \<and> (lod = Omitted \<or> lod = Language l)
        \<and> j = m (datatype_of lod) (seedBase f + 2)
        \<and> i = m v (seedBase f + 4 +
                   (if language_of lod \<noteq> [] then m (language_of lod) (seedBase f) else j)) \<longrightarrow>
        (truthy (memo_get (memoizationMap f) i) \<longrightarrow>
           fst (literal_hash m f v lod) = Inr (memo_get (memoizationMap f) i))
      \<and> (i \<noteq> j
           \<and> (\<not> truthy (memo_get (memoizationMap f) j)
               \<or> (\<exists>a. memo_get (memoizationMap f) j = NamedNode (Some a) (Some j) (datatype_of lod)))
           \<and> (\<not> truthy (memo_get (memoizationMap f) i)
               \<or> (\<exists>a b. memo_get (memoizationMap f) i
                     = Literal (Some a) (Some i) v (language_of lod)
                         (NamedNode (Some b) (Some j) (datatype_of lod)))) \<longrightarrow>
           (\<exists>a b f'. literal_hash m f v lod =
               (Inr (Literal (Some a) (Some i) v (language_of lod)
                       (NamedNode (Some b) (Some j) (datatype_of lod))), f')
             \<and> fromId_hash f' i = Literal (Some a) (Some i) v (language_of lod)
                       (NamedNode (Some b) (Some j) (datatype_of lod)))))
   \<and> language_of Omitted = [] \<and> datatype_of Omitted = ''http://www.w3.org/2001/XMLSchema#string''
   \<and> language_of (Language l) = l
   \<and> datatype_of (Language l) = ''http://www.w3.org/1999/02/22-rdf-syntax-ns#langString''"
proof (intro conjI impI)
  assume a: "wf_index h \<and> (lod = Omitted \<or> lod = Language l)"
  let ?K = "v @ '','' @ language_of lod @ '','' @ datatype_of lod"
  have wf: "wf_index h" and lod: "lod = Omitted \<or> lod = Language l" using a by simp_all
  show "\<exists>a n v' l' d' h'.
           literal_index h v lod = (Inr (Literal (Some a) (Some n) v' l' d'), h')
         \<and> literalMap h' ?K = Some (Literal (Some a) (Some n) v' l' d')
         \<and> truthy d'
         \<and> v' @ '','' @ l' @ '','' @ show_str (prop_value d') = ?K
         \<and> (literalMap h ?K = None \<longrightarrow>
              v' = v \<and> l' = language_of lod
              \<and> (\<exists>b j. d' = NamedNode (Some b) (Some j) (datatype_of lod)))
         \<and> (\<forall>t. literalMap h ?K = Some t \<longrightarrow> Literal (Some a) (Some n) v' l' d' = t)
         \<and> (CHR '','' \<notin> set v \<and> CHR '','' \<notin> set (language_of lod)
              \<and> CHR '','' \<notin> set v' \<and> CHR '','' \<notin> set l' \<longrightarrow>
              v' = v \<and> l' = language_of lod \<and> show_str (prop_value d') = datatype_of lod)"
    by (rule literal_index_defaults [OF wf lod])
next
  assume a: "wf_hash m f \<and> (lod = Omitted \<or> lod = Language l)
        \<and> j = m (datatype_of lod) (seedBase f + 2)
        \<and> i = m v (seedBase f + 4 +
                   (if language_of lod \<noteq> [] then m (language_of lod) (seedBase f) else j))"
  show "fst (literal_hash m f v lod) = Inr (memo_get (memoizationMap f) i)"
    if "truthy (memo_get (memoizationMap f) i)"
    by (rule literal_hash_hit [of m f lod l]) (use a that in simp_all)
  show "\<exists>a b f'. literal_hash m f v lod =
               (Inr (Literal (Some a) (Some i) v (language_of lod)
                       (NamedNode (Some b) (Some j) (datatype_of lod))), f')
             \<and> fromId_hash f' i = Literal (Some a) (Some i) v (language_of lod)
                       (NamedNode (Some b) (Some j) (datatype_of lod))"
    if "i \<noteq> j
           \<and> (\<not> truthy (memo_get (memoizationMap f) j)
               \<or> (\<exists>a. memo_get (memoizationMap f) j = NamedNode (Some a) (Some j) (datatype_of lod)))
           \<and> (\<not> truthy (memo_get (memoizationMap f) i)
               \<or> (\<exists>a b. memo_get (memoizationMap f) i
                     = Literal (Some a) (Some i) v (language_of lod)
                         (NamedNode (Some b) (Some j) (datatype_of lod))))"
    by (rule literal_hash_defaults [of m f lod l j i v]) (use a that in blast)+
qed (simp_all add: language_of_def datatype_of_def datatypes_string_def datatypes_langString_def)

theorem literal_defaults_witness:
  "wf_index new_index
   \<and> (\<exists>a n v' l' d' h'.
         literal_index new_index ''x'' Omitted = (Inr (Literal (Some a) (Some n) v' l' d'), h')
       \<and> literalMap h' ''x,,http://www.w3.org/2001/XMLSchema#string''
           = Some (Literal (Some a) (Some n) v' l' d')
       \<and> v' = ''x'' \<and> l' = []
       \<and> (\<exists>b j. d' = NamedNode (Some b) (Some j) ''http://www.w3.org/2001/XMLSchema#string''))
   \<and> wf_hash (\<lambda>s k. int (length s) + k) (new_hash 0)
   \<and> \<not> truthy (memo_get (memoizationMap (new_hash 0)) 55)
   \<and> \<not> truthy (memo_get (memoizationMap (new_hash 0)) 7)
   \<and> (\<exists>a b f'. literal_hash (\<lambda>s k. int (length s) + k) (new_hash 0) ''x'' (Language ''en'') =
         (Inr (Literal (Some a) (Some 7) ''x'' ''en''
                 (NamedNode (Some b) (Some 55)
                    ''http://www.w3.org/1999/02/22-rdf-syntax-ns#langString'')), f')
       \<and> fromId_hash f' 7 = Literal (Some a) (Some 7) ''x'' ''en''
                 (NamedNode (Some b) (Some 55)
                    ''http://www.w3.org/1999/02/22-rdf-syntax-ns#langString''))"
proof -
  let ?m = "\<lambda>s k. int (length s) + k"
  have e: "memoizationMap (new_hash 0) = Map.empty" "seedBase (new_hash 0) = 0"
    "literalMap new_index = Map.empty"
    by (simp_all add: new_hash_def new_index_def)
  have d: "datatype_of (Language ''en'') = ''http://www.w3.org/1999/02/22-rdf-syntax-ns#langString''"
    "language_of (Language ''en'') = ''en''"
    "datatype_of Omitted = ''http://www.w3.org/2001/XMLSchema#string''" "language_of Omitted = []"
    by (simp_all add: datatype_of_def language_of_def datatypes_langString_def datatypes_string_def)
  have w: "wf_index new_index" "wf_hash ?m (new_hash 0)"
    by (rule wf_index_new, rule wf_hash_new)
  have n: "\<not> truthy (memo_get (memoizationMap (new_hash 0)) 55)"
    "\<not> truthy (memo_get (memoizationMap (new_hash 0)) 7)"
    by (simp_all add: e memo_get_def)
  note ix = literal_defaults [where h = new_index and lod = Omitted and v = "''x''",
      THEN conjunct1, rule_format, OF conjI [OF w(1) disjI1 [OF refl]]]
  have 1: "\<exists>a n v' l' d' h'.
         literal_index new_index ''x'' Omitted = (Inr (Literal (Some a) (Some n) v' l' d'), h')
       \<and> literalMap h' ''x,,http://www.w3.org/2001/XMLSchema#string''
           = Some (Literal (Some a) (Some n) v' l' d')
       \<and> v' = ''x'' \<and> l' = []
       \<and> (\<exists>b j. d' = NamedNode (Some b) (Some j) ''http://www.w3.org/2001/XMLSchema#string'')"
    using ix by (simp add: e d) blast
  note hx = literal_defaults [where f = "new_hash 0" and m = ?m
         and lod = "Language ''en''" and l = "''en''" and v = "''x''" and i = 7 and j = 55,
      THEN conjunct2, THEN conjunct1, rule_format]
  have 2: "\<exists>a b f'. literal_hash ?m (new_hash 0) ''x'' (Language ''en'') =
         (Inr (Literal (Some a) (Some 7) ''x'' ''en''
                 (NamedNode (Some b) (Some 55)
                    ''http://www.w3.org/1999/02/22-rdf-syntax-ns#langString'')), f')
       \<and> fromId_hash f' 7 = Literal (Some a) (Some 7) ''x'' ''en''
                 (NamedNode (Some b) (Some 55)
                    ''http://www.w3.org/1999/02/22-rdf-syntax-ns#langString'')"
    using hx w(2) n by (simp add: e d)
  show ?thesis by (intro conjI w n 1 2)
qed




text \<open>
  Claim C7, as stated, fails for the falsy values: \<open>blankNode 0\<close> and \<open>blankNode false\<close> do
  not throw, the guard being \<open>value && typeof value !== "string"\<close>; they are named from the
  counter like an omitted value.
\<close>

theorem bad_value_counterexample:
  "\<not> is_string (JNum 0)
   \<and> fst (blankNode_index new_index (JNum 0)) = Inr (BlankNode (Some 0) (Some 1) ''_:b2'')
   \<and> fst (blankNode_hash (\<lambda>s k. 0) (new_hash 0) (JBool False))
       = Inr (BlankNode (Some 0) (Some 0) ''b1'')"
  by (simp add: blankNode_index_def blankNode_hash_def new_index_def new_hash_def obj_get_def
        memo_get_def not_proto_simps toString_small Let_def)

text \<open>
  Claim C7, amended. \<open>namedNode\<close> with a value that is no string, and \<open>blankNode\<close> with a
  truthy value that is no string, return a \<open>TypeError\<close> and the factory unchanged, in both
  factories, and in the older copy of the hashing factory whenever \<open>NODE_ENV\<close> is not
  \<open>development\<close>. A falsy value given to \<open>blankNode\<close> behaves as an omitted one and yields a
  term.
\<close>

theorem bad_value_throws:
  "(\<not> is_string v \<longrightarrow>
        namedNode_hash m f v = (Inl TypeError, f)
      \<and> namedNode_index h v = (Inl TypeError, h)
      \<and> (env \<noteq> Some ''development'' \<longrightarrow> namedNode_old m env f v = (Inl TypeError, f)))
   \<and> (truthy_js v \<and> \<not> is_string v \<longrightarrow>
        blankNode_hash m f v = (Inl TypeError, f)
      \<and> blankNode_index h v = (Inl TypeError, h)
      \<and> (env \<noteq> Some ''development'' \<longrightarrow> blankNode_old m env f v = (Inl TypeError, f)))
   \<and> (\<not> truthy_js v \<longrightarrow>
        blankNode_hash m f v = blankNode_hash m f JUndefined
      \<and> blankNode_index h v = blankNode_index h JUndefined
      \<and> (\<exists>t. fst (blankNode_hash m f v) = Inr t)
      \<and> (\<exists>t. fst (blankNode_index h v) = Inr t))"
proof (intro conjI impI)
  assume "\<not> is_string v"
  then show "namedNode_hash m f v = (Inl TypeError, f)" by (rule namedNode_hash_throws)
  show "namedNode_index h v = (Inl TypeError, h)" using \<open>\<not> is_string v\<close> by (rule namedNode_index_throws)
  show "namedNode_old m env f v = (Inl TypeError, f)" if "env \<noteq> Some ''development''"
    using that \<open>\<not> is_string v\<close> by (simp add: namedNode_old_def)
next
  assume a: "truthy_js v \<and> \<not> is_string v"
  then show "blankNode_hash m f v = (Inl TypeError, f)" by (simp add: blankNode_hash_throws)
  show "blankNode_index h v = (Inl TypeError, h)" using a by (simp add: blankNode_index_throws)
  show "blankNode_old m env f v = (Inl TypeError, f)" if "env \<noteq> Some ''development''"
    using that a by (simp add: blankNode_old_def)
next
  assume a: "\<not> truthy_js v"
  then show "blankNode_hash m f v = blankNode_hash m f JUndefined" by (rule blankNode_hash_falsy)
  show "blankNode_index h v = blankNode_index h JUndefined" using a by (rule blankNode_index_falsy)
  show "\<exists>t. fst (blankNode_hash m f v) = Inr t"
    unfolding blankNode_hash_fresh [OF a] by (rule store_hash_Inr)
  show "\<exists>t. fst (blankNode_index h v) = Inr t"
    unfolding blankNode_index_fresh [OF a] by (rule store_index_Inr)
qed

theorem bad_value_throws_witness:
  "\<not> is_string (JNum 42) \<and> truthy_js (JNum 42) \<and> None \<noteq> Some ''development''
   \<and> namedNode_index new_index (JNum 42) = (Inl TypeError, new_index)
   \<and> blankNode_index new_index (JNum 42) = (Inl TypeError, new_index)
   \<and> namedNode_old (\<lambda>s k. 0) None (new_hash 0) (JNum 42) = (Inl TypeError, new_hash 0)
   \<and> blankNode_old (\<lambda>s k. 0) None (new_hash 0) (JNum 42) = (Inl TypeError, new_hash 0)
   \<and> \<not> truthy_js JNull
   \<and> blankNode_index new_index JNull = blankNode_index new_index JUndefined"
  using bad_value_throws [of "JNum 42" "\<lambda>s k. 0" "new_hash 0" new_index None]
        bad_value_throws [of JNull "\<lambda>s k. 0" "new_hash 0" new_index None]
  by simp

text \<open>
  Claim C8, as stated, fails in four places.
  \<^item> An object whose \<open>termType\<close> is none of the known ones but which has a truthy \<open>id\<close> gets
    that \<open>id\<close>, not \<open>-1\<close>, since the test of the \<open>id\<close> field comes first.
  \<^item> An \<open>id\<close> field that is \<open>0\<close> is falsy, so the counting factory gives a named node that
    carries the identity \<open>0\<close> a new number.
  \<^item> \<open>id\<close> of \<^verbatim>\<open>null\<close> throws in both factories, since \<^verbatim>\<open>null\<close> is neither an array nor
    \<^verbatim>\<open>undefined\<close> and has no properties.
  \<^item> The counting \<open>id\<close> of a literal description without datatype throws.
\<close>

theorem id_sentinel_counterexample:
  "id_index new_index (Other None (Some 7) ''x'') = (Inr (Some 7), new_index)
   \<and> id_hash (\<lambda>s k. 0) (new_hash 0) (Other None (Some 7) ''x'') = Inr 7
   \<and> id_index new_index (NamedNode None (Some 0) ''x'') = (Inr (Some 1), new_index\<lparr>index := 2\<rparr>)
   \<and> id_hash (\<lambda>s k. 0) (new_hash 0) Null = Inl TypeError
   \<and> id_index new_index Null = (Inl TypeError, new_index)
   \<and> id_index new_index (Literal None None ''x'' [] Undefined) = (Inl TypeError, new_index)"
  by (simp add: entry_id_def obj_get_def new_index_def Object_prototype_def)

text \<open>
  Claim C8, amended. In both factories \<open>id\<close> returns \<open>-1\<close> for \<open>undefined\<close>, for an array and
  for an object of no known \<open>termType\<close> without a truthy \<open>id\<close>, and it returns the \<open>id\<close> field
  of any object that has a truthy one; the counting factory leaves the store as it is in
  these cases. \<open>id\<close> throws a \<open>TypeError\<close> exactly on these objects, none of which the
  interfaces of the terms allow: the hashing \<open>id\<close> on \<^verbatim>\<open>null\<close> and on the quads and literals
  without identity through which it reaches \<^verbatim>\<open>null\<close>; the counting \<open>id\<close> on \<^verbatim>\<open>null\<close>, on the
  literals without identity and without datatype, and on the quads without identity through
  which it reaches one of these. On every other object the hashing \<open>id\<close> returns an
  integer, and the counting \<open>id\<close> returns a value, which on a well-formed store is an
  integer unless the object describes a blank or named node whose value names a property
  of \<open>Object.prototype\<close>.
\<close>

theorem id_sentinel_and_assigned:
  "id_hash m f Undefined = Inr (- 1) \<and> id_hash m f (Array xs) = Inr (- 1)
   \<and> (assigned i = None \<longrightarrow> id_hash m f (Other a i v) = Inr (- 1))
   \<and> (identified t \<longrightarrow> (\<exists>n. prop_id t = Some n \<and> id_hash m f t = Inr n))
   \<and> (fails_hash t \<longrightarrow> id_hash m f t = Inl TypeError)
   \<and> (\<not> fails_hash t \<longrightarrow> (\<exists>n. id_hash m f t = Inr n))
   \<and> id_index h Undefined = (Inr (Some (- 1)), h)
   \<and> id_index h (Array xs) = (Inr (Some (- 1)), h)
   \<and> (assigned i = None \<longrightarrow> id_index h (Other a i v) = (Inr (Some (- 1)), h))
   \<and> (identified t \<longrightarrow> id_index h t = (Inr (prop_id t), h))
   \<and> (fails_index t \<longrightarrow> (\<exists>h'. id_index h t = (Inl TypeError, h')))
   \<and> (\<not> fails_index t \<longrightarrow> (\<exists>x h'. id_index h t = (Inr x, h')))
   \<and> (wf_index h \<and> \<not> fails_index t \<and> \<not> proto_named t \<longrightarrow>
        (\<exists>n h'. id_index h t = (Inr (Some n), h')))"
proof (intro conjI impI)
  show "\<exists>n. prop_id t = Some n \<and> id_hash m f t = Inr n" if "identified t"
    using that by (rule id_hash_identified)
  show "id_hash m f t = Inl TypeError" if "fails_hash t"
    using that by (rule id_hash_throws)
  show "\<exists>n. id_hash m f t = Inr n" if "\<not> fails_hash t"
    using that by (rule id_hash_total)
  show "id_index h t = (Inr (prop_id t), h)" if "identified t"
    using that by (rule id_index_identified)
  show "\<exists>h'. id_index h t = (Inl TypeError, h')" if "fails_index t"
    using that by (rule id_index_throws)
  show "\<exists>x h'. id_index h t = (Inr x, h')" if "\<not> fails_index t"
    using that by (rule id_index_total)
  show "\<exists>n h'. id_index h t = (Inr (Some n), h')"
    if "wf_index h \<and> \<not> fails_index t \<and> \<not> proto_named t"
    using that id_index_integer [of h t] by blast
qed simp_all

theorem id_sentinel_and_assigned_witness:
  "assigned (Some 0) = None \<and> id_index new_index (Other None (Some 0) ''x'') = (Inr (Some (- 1)), new_index)
   \<and> id_hash (\<lambda>s k. 0) (new_hash 0) (Other None (Some 0) ''x'') = Inr (- 1)
   \<and> identified (Literal (Some 3) (Some 12) ''x'' ''en'' Undefined)
   \<and> id_index new_index (Literal (Some 3) (Some 12) ''x'' ''en'' Undefined) = (Inr (Some 12), new_index)
   \<and> id_hash (\<lambda>s k. 0) (new_hash 0) (Literal (Some 3) (Some 12) ''x'' ''en'' Undefined) = Inr 12
   \<and> wf_index new_index \<and> \<not> fails_index (NamedNode None None ''x'')
   \<and> \<not> fails_hash (NamedNode None None ''x'') \<and> \<not> proto_named (NamedNode None None ''x'')
   \<and> id_index new_index (NamedNode None None ''x'') = (Inr (Some 1), new_index\<lparr>index := 2\<rparr>)
   \<and> (\<exists>n. id_hash (\<lambda>s k. 0) (new_hash 0) (NamedNode None None ''x'') = Inr n)
   \<and> (\<exists>n h'. id_index new_index (NamedNode None None ''x'') = (Inr (Some n), h'))
   \<and> fails_hash (Quad None None Null Undefined Undefined Undefined)
   \<and> id_hash (\<lambda>s k. 0) (new_hash 0) (Quad None None Null Undefined Undefined Undefined)
       = Inl TypeError
   \<and> fails_index (Literal None None ''x'' [] Undefined)
   \<and> (\<exists>h'. id_index new_index (Literal None None ''x'' [] Undefined) = (Inl TypeError, h'))"
proof -
  note th1 = id_sentinel_and_assigned [of "\<lambda>s k. 0" "new_hash 0" xs "Some 0" None "''x''"
          "Literal (Some 3) (Some 12) ''x'' ''en'' Undefined" new_index]
  note th2 = id_sentinel_and_assigned [of "\<lambda>s k. 0" "new_hash 0" xs "Some 0" None "''x''"
          "NamedNode None None ''x''" new_index]
  note th3 = id_sentinel_and_assigned [of "\<lambda>s k. 0" "new_hash 0" xs "Some 0" None "''x''"
          "Quad None None Null Undefined Undefined Undefined" new_index]
  note th4 = id_sentinel_and_assigned [of "\<lambda>s k. 0" "new_hash 0" xs "Some 0" None "''x''"
          "Literal None None ''x'' [] Undefined" new_index]
  have c: "assigned (Some 0) = None" "identified (Literal (Some 3) (Some 12) ''x'' ''en'' Undefined)"
    "wf_index new_index" "\<not> fails_index (NamedNode None None ''x'')"
    "\<not> fails_hash (NamedNode None None ''x'')" "\<not> proto_named (NamedNode None None ''x'')"
    "fails_hash (Quad None None Null Undefined Undefined Undefined)"
    "fails_index (Literal None None ''x'' [] Undefined)"
    by (simp_all add: identified_def wf_index_new Object_prototype_def)
  have 1: "id_index new_index (Other None (Some 0) ''x'') = (Inr (Some (- 1)), new_index)"
    "id_hash (\<lambda>s k. 0) (new_hash 0) (Other None (Some 0) ''x'') = Inr (- 1)"
    using th1 c(1) by blast+
  have 2: "id_index new_index (Literal (Some 3) (Some 12) ''x'' ''en'' Undefined)
        = (Inr (Some 12), new_index)"
    "id_hash (\<lambda>s k. 0) (new_hash 0) (Literal (Some 3) (Some 12) ''x'' ''en'' Undefined) = Inr 12"
    using th1 c(2) by auto
  have 3: "id_index new_index (NamedNode None None ''x'') = (Inr (Some 1), new_index\<lparr>index := 2\<rparr>)"
    by (simp add: entry_id_def obj_get_def new_index_def Object_prototype_def)
  have 4: "\<exists>n. id_hash (\<lambda>s k. 0) (new_hash 0) (NamedNode None None ''x'') = Inr n"
    "\<exists>n h'. id_index new_index (NamedNode None None ''x'') = (Inr (Some n), h')"
    using th2 c(3-6) by blast+
  have 5: "id_hash (\<lambda>s k. 0) (new_hash 0) (Quad None None Null Undefined Undefined Undefined)
       = Inl TypeError"
    using th3 c(7) by blast
  have 6: "\<exists>h'. id_index new_index (Literal None None ''x'' [] Undefined) = (Inl TypeError, h')"
    using th4 c(8) by blast
  show ?thesis by (intro conjI c 1 2 3 4 5 6)
qed

text \<open>
  Claim C9. The round trip fails in the counting factory for a value that names a
  property of \<open>Object.prototype\<close>: the lookup table \<open>{}\<close> inherits that property, the lookup
  is truthy, and \<open>namedNode "constructor"\<close> returns the inherited function. It has no \<open>id\<close>,
  nothing was stored, and \<open>fromId\<close> finds nothing.
\<close>

theorem prototype_key_breaks_roundtrip:
  "namedNode_index new_index (JStr ''constructor'') = (Inr (Builtin ''constructor''), new_index)
   \<and> blankNode_index new_index (JStr ''toString'') = (Inr (Builtin ''toString''), new_index)
   \<and> prop_id (Builtin ''constructor'') = None
   \<and> (\<forall>i. fromId_index new_index i = Undefined)"
  by (simp add: namedNode_index_def blankNode_index_def fromId_index_def memo_get_def
        obj_get_def new_index_def Object_prototype_def)

text \<open>
  Claim C10. For a description whose value names a property of \<open>Object.prototype\<close> the
  counting \<open>id\<close> finds the inherited function in the table, although nothing is interned
  under that value, and returns its \<open>id\<close> property, which is \<open>undefined\<close>: no number is taken
  from the counter.
\<close>

theorem prototype_key_description_id:
  "id_index new_index (NamedNode None None ''constructor'') = (Inr None, new_index)
   \<and> id_index new_index (BlankNode None None ''toString'') = (Inr None, new_index)
   \<and> namedNodeMap new_index ''constructor'' = None
   \<and> blankNodeMap new_index ''toString'' = None"
  by (simp add: entry_id_def obj_get_def new_index_def Object_prototype_def)

section \<open>Further properties\<close>

text \<open>
  The stores stay well formed: a new factory is well formed, and every operation of
  either factory leaves a well-formed store well formed.
\<close>

theorem factories_keep_invariant:
  "wf_hash m (new_hash seed) \<and> wf_index new_index
   \<and> (wf_hash m f \<longrightarrow>
        wf_hash m (snd (namedNode_hash m f v)) \<and> wf_hash m (snd (blankNode_hash m f v))
      \<and> wf_hash m (snd (literal_hash m f s lod)) \<and> wf_hash m (snd (quad_hash m f sub p ob g)))
   \<and> (wf_index h \<longrightarrow>
        wf_index (snd (namedNode_index h v)) \<and> wf_index (snd (blankNode_index h v))
      \<and> wf_index (snd (literal_index h s lod)) \<and> wf_index (snd (quad_index h sub p ob g))
      \<and> wf_index (snd (id_index h t)) \<and> wf_index (snd (equals_index h x y)))"
proof (intro conjI impI)
  assume w: "wf_index h"
  show "wf_index (snd (id_index h t))"
    using id_index_wf [OF w, of t] by (cases "id_index h t") simp
  show "wf_index (snd (equals_index h x y))"
    using equals_index_bumps [of h x y] wf_index_bumps [OF w] by (cases "equals_index h x y") simp
qed (simp_all add: wf_hash_new wf_index_new namedNode_hash_wf blankNode_hash_wf literal_hash_wf
       quad_hash_wf namedNode_index_wf blankNode_index_wf literal_index_wf quad_index_wf)

theorem factories_keep_invariant_witness:
  "wf_hash (\<lambda>s k. 0) (new_hash 0) \<and> wf_index new_index
   \<and> wf_index (snd (quad_index new_index (NamedNode None None ''s'') (NamedNode None None ''p'')
                      (NamedNode None None ''o'') Undefined))
   \<and> wf_hash (\<lambda>s k. 0) (snd (literal_hash (\<lambda>s k. 0) (new_hash 0) ''x'' (Language ''en'')))"
  using factories_keep_invariant [where m = "\<lambda>s k. 0" and seed = 0 and f = "new_hash 0"
      and h = new_index and s = "''x''" and lod = "Language ''en''"
      and sub = "NamedNode None None ''s''" and p = "NamedNode None None ''p''"
      and ob = "NamedNode None None ''o''" and g = Undefined]
  by simp

text \<open>
  In the hashing factory, on a well-formed store, \<open>fromId\<close> of the identity of a term that
  \<open>namedNode\<close>, \<open>blankNode\<close>, \<open>literal\<close> or \<open>quad\<close> returned is that term.
\<close>

theorem fromId_roundtrip_hash:
  "wf_hash m f \<and> (namedNode_hash m f v = (Inr t, f') \<or> blankNode_hash m f v = (Inr t, f')
      \<or> literal_hash m f s lod = (Inr t, f') \<or> quad_hash m f sub p ob g = (Inr t, f')) \<longrightarrow>
   (\<exists>j. prop_id t = Some j \<and> fromId_hash f' j = t)"
proof (intro impI, elim conjE disjE)
  assume w: "wf_hash m f"
  show "\<exists>j. prop_id t = Some j \<and> fromId_hash f' j = t" if "namedNode_hash m f v = (Inr t, f')"
    using namedNode_hash_stored [OF w that] by blast
  show "\<exists>j. prop_id t = Some j \<and> fromId_hash f' j = t" if "blankNode_hash m f v = (Inr t, f')"
    using blankNode_hash_stored [OF w that] by blast
  show "\<exists>j. prop_id t = Some j \<and> fromId_hash f' j = t" if "literal_hash m f s lod = (Inr t, f')"
    using literal_hash_stored [OF w that] by blast
  show "\<exists>j. prop_id t = Some j \<and> fromId_hash f' j = t" if "quad_hash m f sub p ob g = (Inr t, f')"
    using quad_hash_stored [OF w that] by blast
qed

theorem fromId_roundtrip_hash_witness:
  "wf_hash (\<lambda>s k. int (length s) + k) (new_hash 0)
   \<and> namedNode_hash (\<lambda>s k. int (length s) + k) (new_hash 0) (JStr ''a'')
       = (Inr (NamedNode (Some 0) (Some 3) ''a''),
          new_hash 0\<lparr>memoizationMap := [3 \<mapsto> NamedNode (Some 0) (Some 3) ''a''], nextAddr := 1\<rparr>)
   \<and> (\<exists>j. prop_id (NamedNode (Some 0) (Some 3) ''a'') = Some j
          \<and> fromId_hash (new_hash 0\<lparr>memoizationMap := [3 \<mapsto> NamedNode (Some 0) (Some 3) ''a''],
                                     nextAddr := 1\<rparr>) j = NamedNode (Some 0) (Some 3) ''a'')"
proof -
  have w: "wf_hash (\<lambda>s k. int (length s) + k) (new_hash 0)" by (rule wf_hash_new)
  have n: "namedNode_hash (\<lambda>s k. int (length s) + k) (new_hash 0) (JStr ''a'')
       = (Inr (NamedNode (Some 0) (Some 3) ''a''),
          new_hash 0\<lparr>memoizationMap := [3 \<mapsto> NamedNode (Some 0) (Some 3) ''a''], nextAddr := 1\<rparr>)"
    by (simp add: namedNode_hash_def new_hash_def memo_get_def Let_def)
  show ?thesis
    using w n fromId_roundtrip_hash [where m = "\<lambda>s k. int (length s) + k" and f = "new_hash 0"
        and v = "JStr ''a''" and t = "NamedNode (Some 0) (Some 3) ''a''"
        and f' = "new_hash 0\<lparr>memoizationMap := [3 \<mapsto> NamedNode (Some 0) (Some 3) ''a''], nextAddr := 1\<rparr>"]
    by blast
qed

text \<open>
  In the counting factory, on a well-formed store, the same holds for \<open>literal\<close> and
  \<open>quad\<close>, and for \<open>namedNode\<close> and \<open>blankNode\<close> unless the call returned a property of
  \<open>Object.prototype\<close>.
\<close>

theorem fromId_roundtrip_index:
  "wf_index h \<longrightarrow>
     (namedNode_index h v = (Inr t, h') \<or> blankNode_index h v = (Inr t, h') \<longrightarrow>
        (\<exists>k. t = Builtin k \<and> k \<in> set Object_prototype)
        \<or> (\<exists>j. prop_id t = Some j \<and> fromId_index h' j = t))
   \<and> (literal_index h s lod = (Inr t, h') \<or> quad_index h sub p ob g = (Inr t, h') \<longrightarrow>
        (\<exists>j. prop_id t = Some j \<and> fromId_index h' j = t))"
proof (intro impI conjI)
  assume w: "wf_index h"
  show "(\<exists>k. t = Builtin k \<and> k \<in> set Object_prototype)
        \<or> (\<exists>j. prop_id t = Some j \<and> fromId_index h' j = t)"
    if "namedNode_index h v = (Inr t, h') \<or> blankNode_index h v = (Inr t, h')"
    using that namedNode_index_fromId [OF w, of v t h'] blankNode_index_fromId [OF w, of v t h']
    by (elim disjE) simp_all
  show "\<exists>j. prop_id t = Some j \<and> fromId_index h' j = t"
    if "literal_index h s lod = (Inr t, h') \<or> quad_index h sub p ob g = (Inr t, h')"
    using that literal_index_fromId [OF w, of s lod t h'] quad_index_fromId [OF w, of sub p ob g t h']
    by (elim disjE) simp_all
qed

theorem fromId_roundtrip_index_witness:
  "wf_index new_index
   \<and> namedNode_index new_index (JStr ''a'')
       = (Inr (NamedNode (Some 0) (Some 1) ''a''),
          new_index\<lparr>index := 2, namedNodeMap := [''a'' \<mapsto> NamedNode (Some 0) (Some 1) ''a''],
            memoizationMap := [1 \<mapsto> NamedNode (Some 0) (Some 1) ''a''], nextAddr := 1\<rparr>)
   \<and> fromId_index
        (new_index\<lparr>index := 2, namedNodeMap := [''a'' \<mapsto> NamedNode (Some 0) (Some 1) ''a''],
            memoizationMap := [1 \<mapsto> NamedNode (Some 0) (Some 1) ''a''], nextAddr := 1\<rparr>) 1
       = NamedNode (Some 0) (Some 1) ''a''"
proof -
  let ?t = "NamedNode (Some 0) (Some 1) ''a''"
  let ?h = "new_index\<lparr>index := 2, namedNodeMap := [''a'' \<mapsto> ?t],
            memoizationMap := [1 \<mapsto> ?t], nextAddr := 1\<rparr>"
  have n: "namedNode_index new_index (JStr ''a'') = (Inr ?t, ?h)"
    by (simp add: namedNode_index_def new_index_def obj_get_def Object_prototype_def Let_def)
  show ?thesis
    using wf_index_new n
      fromId_roundtrip_index [where h = new_index and v = "JStr ''a''" and t = ?t and h' = ?h]
    by auto
qed

text \<open>
  The counting \<open>id\<close> writes to no table: whatever its argument and result, it leaves the
  four lookup tables, the table of identities and the blank node counter as they are, and
  the identity counter does not decrease.
\<close>

theorem id_index_frame:
  "id_index h t = (r, h') \<longrightarrow>
     memoizationMap h' = memoizationMap h \<and> blankNodeMap h' = blankNodeMap h
   \<and> namedNodeMap h' = namedNodeMap h \<and> literalMap h' = literalMap h
   \<and> quadMap h' = quadMap h \<and> bnIndex h' = bnIndex h \<and> nextAddr h' = nextAddr h
   \<and> index h \<le> index h'"
proof
  assume "id_index h t = (r, h')"
  then have b: "bumps h h'" by (rule id_index_bumps)
  show "memoizationMap h' = memoizationMap h \<and> blankNodeMap h' = blankNodeMap h
   \<and> namedNodeMap h' = namedNodeMap h \<and> literalMap h' = literalMap h
   \<and> quadMap h' = quadMap h \<and> bnIndex h' = bnIndex h \<and> nextAddr h' = nextAddr h
   \<and> index h \<le> index h'"
    using bumps_fields(1,3,4,5) [OF b] bumps_fields(2) [OF b, of KBlank]
      bumps_fields(2) [OF b, of KNamed] bumps_fields(2) [OF b, of KLiteral]
      bumps_fields(2) [OF b, of KQuad]
    by simp
qed

theorem id_index_frame_witness:
  "id_index new_index (NamedNode None None ''x'') = (Inr (Some 1), new_index\<lparr>index := 2\<rparr>)
   \<and> memoizationMap (new_index\<lparr>index := 2\<rparr>) = memoizationMap new_index
   \<and> namedNodeMap (new_index\<lparr>index := 2\<rparr>) = namedNodeMap new_index
   \<and> index new_index \<le> index (new_index\<lparr>index := 2\<rparr>)"
proof -
  have i: "id_index new_index (NamedNode None None ''x'') = (Inr (Some 1), new_index\<lparr>index := 2\<rparr>)"
    by (simp add: entry_id_def obj_get_def new_index_def Object_prototype_def)
  show ?thesis
    using i id_index_frame [of new_index "NamedNode None None ''x''" "Inr (Some 1)" "new_index\<lparr>index := 2\<rparr>"]
    by simp
qed

text \<open>
  On a well-formed store, the counting \<open>id\<close> of a description of a named node, blank node
  or literal (with a datatype) without \<open>id\<close>, whose content key is in no table and names
  no property of \<open>Object.prototype\<close>, returns the counter and increments it; \<open>fromId\<close> of
  that number finds nothing, and a second call returns the next number.
\<close>

theorem id_index_allocates:
  "wf_index h \<and> table c h k = None \<and> k \<notin> set Object_prototype
    \<and> (t = NamedNode a None v \<and> c = KNamed \<and> k = v
       \<or> t = BlankNode a None v \<and> c = KBlank \<and> k = v
       \<or> t = Literal a None v l d \<and> truthy d \<and> c = KLiteral
          \<and> k = v @ '','' @ l @ '','' @ show_str (prop_value d)) \<longrightarrow>
     id_index h t = (Inr (Some (index h)), h\<lparr>index := index h + 1\<rparr>)
   \<and> fromId_index (h\<lparr>index := index h + 1\<rparr>) (index h) = Undefined
   \<and> id_index (h\<lparr>index := index h + 1\<rparr>) t
       = (Inr (Some (index h + 1)), h\<lparr>index := index h + 2\<rparr>)"
  using id_index_fresh [of h t a v c k l d] by blast

theorem id_index_allocates_witness:
  "wf_index new_index \<and> table KNamed new_index ''x'' = None \<and> ''x'' \<notin> set Object_prototype
   \<and> id_index new_index (NamedNode None None ''x'') = (Inr (Some 1), new_index\<lparr>index := 2\<rparr>)
   \<and> fromId_index (new_index\<lparr>index := 2\<rparr>) 1 = Undefined
   \<and> id_index (new_index\<lparr>index := 2\<rparr>) (NamedNode None None ''x'')
       = (Inr (Some 2), new_index\<lparr>index := 3\<rparr>)"
proof -
  have h: "table KNamed new_index ''x'' = None" "''x'' \<notin> set Object_prototype" "index new_index = 1"
    by (simp_all add: new_index_def Object_prototype_def)
  show ?thesis
    using wf_index_new h
      id_index_allocates [where h = new_index and c = KNamed and k = "''x''"
        and t = "NamedNode None None ''x''" and a = None and v = "''x''"]
    by simp
qed

text \<open>
  The hashing \<open>quad\<close> adds the identities of its components, so a quad and the quad with
  subject and object exchanged have the same identity: on a well-formed store and for
  components on which \<open>id\<close> does not throw, after \<open>quad a p b g\<close> the call \<open>quad b p a g\<close>
  returns the stored quad with subject \<open>a\<close>.
\<close>

theorem quad_hash_collapses_swapped_quads:
  "wf_hash m f \<and> \<not> fails_hash (Quad None None a p b g) \<longrightarrow>
     (\<exists>q f1. quad_hash m f a p b g = (Inr q, f1) \<and> quad_hash m f1 b p a g = (Inr q, f1))"
  using quad_hash_swapped [of m f a p b g] by blast

theorem quad_hash_collapses_swapped_quads_witness:
  "wf_hash (\<lambda>s k. int (length s) + k) (new_hash 0)
   \<and> \<not> fails_hash (Quad None None (NamedNode None None ''a'') (NamedNode None None ''p'')
               (NamedNode None None ''bb'') Undefined)
   \<and> (\<exists>q f1. quad_hash (\<lambda>s k. int (length s) + k) (new_hash 0) (NamedNode None None ''a'')
                  (NamedNode None None ''p'') (NamedNode None None ''bb'') Undefined = (Inr q, f1)
          \<and> quad_hash (\<lambda>s k. int (length s) + k) f1 (NamedNode None None ''bb'')
                  (NamedNode None None ''p'') (NamedNode None None ''a'') Undefined = (Inr q, f1))"
proof -
  have w: "wf_hash (\<lambda>s k. int (length s) + k) (new_hash 0)" by (rule wf_hash_new)
  have t: "\<not> fails_hash (Quad None None (NamedNode None None ''a'') (NamedNode None None ''p'')
               (NamedNode None None ''bb'') Undefined)"
    by simp
  show ?thesis
    using w t quad_hash_collapses_swapped_quads [where m = "\<lambda>s k. int (length s) + k"
        and f = "new_hash 0" and a = "NamedNode None None ''a''" and p = "NamedNode None None ''p''"
        and b = "NamedNode None None ''bb''" and g = Undefined]
    by blast
qed

end
